theory Spec2Isabelle
  imports
    Complex_Main
    "HOL-Library.AList"
    "HOL-Library.Char_ord"
    "HOL-Library.List_Lexorder"
    "HOL-Library.Monad_Syntax"
    "HOL-Library.Word"
begin

section \<open>Data model (types.ts)\<close>

text \<open>
  JavaScript numbers that the engine reads from a draw are integers; they are modelled as
  \<open>int\<close>. On the digits of a draw every integer that the engine computes from them is
  far below \<open>2^53\<close>, so the doubles of the source hold exactly these integers. A read that
  the source can perform out of range (\<open>numbers[k]\<close>, \<open>idx[k]\<close>) yields \<open>undefined\<close>, and
  arithmetic on \<open>undefined\<close> yields \<open>NaN\<close>: both are the value \<open>None\<close> of \<open>jsnum\<close>. Array
  indices, the offset (0-4) and the lookback (1-12) are natural numbers.

  The issue of a draw, which the engine cuts and sorts, is the list of its UTF-16 code
  units (\<open>jsstring\<close>), as a JavaScript string is; so are the date and the year keys. The
  ids and names, which the engine only builds, are byte strings (ASCII for the ids, UTF-8
  for the names). The quotients that the engine computes in floating point (\<open>winRate\<close>,
  \<open>profitRatio\<close>, \<open>avgPeriods\<close>) are the doubles of the source, as the reals they are.
\<close>

type_synonym jsstring = "16 word list"

type_synonym jsnum = "int option"

datatype OpType = Plus | Minus | Times

datatype FormulaType = ONE_POS | TWO_POS | THREE_POS | FOUR_POS | FIVE_POS

record DrawData =
  issue :: jsstring
  date :: jsstring
  numbers :: "int list"

record StrategyConfig =
  id_str :: string
  ftype :: FormulaType
  inputIndices :: "nat list"
  operators :: "OpType list"
  offset :: nat
  targetIndices :: "nat list"
  lookback :: nat
  name :: string

record PeriodStat =
  p_issue :: jsstring
  isWin :: bool
  p_profit :: int
  cumulativeProfit :: int

record AnnualStat =
  year :: jsstring
  profit :: int
  winCount :: int
  totalCount :: int

type_synonym StreakCounts = "(int \<times> int) list"

record StreakCountsPair =
  win :: StreakCounts
  loss :: StreakCounts

record SurvivalStats =
  count :: int
  periods :: "int list"
  avgPeriods :: real

record StrategyStats =
  config :: StrategyConfig
  totalDraws :: int
  winDraws :: int
  winRate :: real
  totalProfit :: int
  profitRatio :: real
  maxWinStreak :: int
  maxLoseStreak :: int
  maxDrawdown :: int
  currentStreak :: int
  isOverheated :: bool
  annualStats :: "AnnualStat list"
  streakCounts :: StreakCountsPair
  survivalStats :: SurvivalStats

definition WIN_PROFIT :: int where
  "WIN_PROFIT = 606"

definition LOSE_COST :: int where
  "LOSE_COST = - 384"

definition OVERHEAT_THRESHOLD :: int where
  "OVERHEAT_THRESHOLD = 8"

section \<open>JavaScript primitives used by the engine\<close>

text \<open>\<open>xs[i]\<close>: \<open>undefined\<close> out of range.\<close>

definition js_index :: "'a list \<Rightarrow> nat \<Rightarrow> 'a option" where
  "js_index xs i = (if i < length xs then Some (xs ! i) else None)"

text \<open>\<open>numbers[idx[k]]\<close>: an undefined index reads \<open>undefined\<close>.\<close>

definition js_index2 :: "int list \<Rightarrow> nat list \<Rightarrow> nat \<Rightarrow> jsnum" where
  "js_index2 nums idx k = (case js_index idx k of None \<Rightarrow> None | Some p \<Rightarrow> js_index nums p)"

fun js_arith :: "(int \<Rightarrow> int \<Rightarrow> int) \<Rightarrow> jsnum \<Rightarrow> jsnum \<Rightarrow> jsnum" where
  "js_arith f (Some a) (Some b) = Some (f a b)"
| "js_arith f _ _ = None"

text \<open>\<open>a === b\<close> on numbers: false as soon as one side is \<open>undefined\<close> or \<open>NaN\<close>.\<close>

fun js_eq :: "jsnum \<Rightarrow> jsnum \<Rightarrow> bool" where
  "js_eq (Some a) (Some b) = (a = b)"
| "js_eq _ _ = False"

text \<open>
  \<open>c === '+' ? a+b : c === '-' ? a-b : a*b\<close>, where \<open>c = ops[k]\<close> may be \<open>undefined\<close>
  (then the last branch is taken).
\<close>

fun ternary_op :: "OpType option \<Rightarrow> jsnum \<Rightarrow> jsnum \<Rightarrow> jsnum" where
  "ternary_op (Some Plus) a b = js_arith (+) a b"
| "ternary_op (Some Minus) a b = js_arith (-) a b"
| "ternary_op _ a b = js_arith (*) a b"

text \<open>\<open>(x || 0) + 1\<close> on a histogram object keyed by streak length.\<close>

definition bump :: "int \<Rightarrow> StreakCounts \<Rightarrow> StreakCounts" where
  "bump k h = AList.update k ((case map_of h k of None \<Rightarrow> 0 | Some c \<Rightarrow> c) + 1) h"

text \<open>\<open>issue.substring(0, 4)\<close>: the first 4 code units.\<close>

definition year_of :: "jsstring \<Rightarrow> jsstring" where
  "year_of s = take 4 s"

section \<open>getReferenceBase\<close>

text \<open>The loop of the 4-Pos / 5-Pos branch: \<open>for (k = 0; k < ops.length; k++)\<close>.\<close>

fun ops_loop :: "int list \<Rightarrow> nat list \<Rightarrow> OpType list \<Rightarrow> nat \<Rightarrow> jsnum \<Rightarrow> jsnum" where
  "ops_loop nums idx [] k temp = temp"
| "ops_loop nums idx (op # rest) k temp =
     ops_loop nums idx rest (k + 1)
       (case op of
          Plus \<Rightarrow> js_arith (+) temp (js_index2 nums idx (k + 1))
        | Minus \<Rightarrow> js_arith (-) temp (js_index2 nums idx (k + 1))
        | Times \<Rightarrow> js_arith (*) temp (js_index2 nums idx (k + 1)))"

text \<open>The value of \<open>sum\<close> before the final line of \<open>getReferenceBase\<close>.\<close>

definition formula_sum :: "FormulaType \<Rightarrow> nat list \<Rightarrow> OpType list \<Rightarrow> int list \<Rightarrow> jsnum" where
  "formula_sum ty idx ops nums =
     (case ty of
        ONE_POS \<Rightarrow> js_index2 nums idx 0
      | TWO_POS \<Rightarrow>
          (let v1 = js_index2 nums idx 0; v2 = js_index2 nums idx 1
           in ternary_op (js_index ops 0) v1 v2)
      | THREE_POS \<Rightarrow>
          (let temp = js_index2 nums idx 0;
               v2 = js_index2 nums idx 1; v3 = js_index2 nums idx 2;
               temp = ternary_op (js_index ops 0) temp v2
           in ternary_op (js_index ops 1) temp v3)
      | FOUR_POS \<Rightarrow> ops_loop nums idx ops 0 (js_index2 nums idx 0)
      | FIVE_POS \<Rightarrow> ops_loop nums idx ops 0 (js_index2 nums idx 0))"

text \<open>
  \<open>return (Math.abs(sum) + config.offset) % 10\<close>. The dividend is never negative, so the
  remainder of JavaScript is \<open>mod\<close>.
\<close>

definition getReferenceBase :: "int list \<Rightarrow> StrategyConfig \<Rightarrow> jsnum" where
  "getReferenceBase nums cfg =
     (case formula_sum (ftype cfg) (inputIndices cfg) (operators cfg) nums of
        None \<Rightarrow> None
      | Some s \<Rightarrow> Some ((\<bar>s\<bar> + int (offset cfg)) mod 10))"

section \<open>analyzeStrategy\<close>

text \<open>The variables mutated by the main loop.\<close>

record pass_state =
  acc_totalProfit :: int
  acc_winDraws :: int
  acc_currentStreak :: int
  acc_maxWinStreak :: int
  acc_maxLoseStreak :: int
  acc_peakProfit :: int
  acc_maxDrawdown :: int
  acc_streakCounts :: StreakCountsPair
  acc_annualMap :: "(jsstring \<times> int \<times> int \<times> int) list"
  acc_winHistory :: "bool list"

definition init_state :: "nat \<Rightarrow> pass_state" where
  "init_state drawCount =
     \<lparr> acc_totalProfit = 0, acc_winDraws = 0, acc_currentStreak = 0,
       acc_maxWinStreak = 0, acc_maxLoseStreak = 0, acc_peakProfit = 0,
       acc_maxDrawdown = 0,
       acc_streakCounts = \<lparr> win = [], loss = [] \<rparr>,
       acc_annualMap = [],
       acc_winHistory = replicate drawCount False \<rparr>"

text \<open>
  The year bucket: \<open>annualMap.get(year)\<close>, a fresh \<open>{profit: 0, wins: 0, count: 0}\<close> when
  absent, then the three updates. Entries are (profit, wins, count), in insertion order.
\<close>

definition annual_add ::
  "jsstring \<Rightarrow> int \<Rightarrow> bool \<Rightarrow> (jsstring \<times> int \<times> int \<times> int) list
     \<Rightarrow> (jsstring \<times> int \<times> int \<times> int) list" where
  "annual_add y p w m =
     (let (yp, yw, yc) = (case map_of m y of None \<Rightarrow> (0, 0, 0) | Some e \<Rightarrow> e)
      in AList.update y (yp + p, (if w then yw + 1 else yw), yc + 1) m)"

text \<open>Lines 131-136: the match count over \<open>targetIndices\<close> and the win test.\<close>

definition matchCount :: "StrategyConfig \<Rightarrow> DrawData list \<Rightarrow> nat \<Rightarrow> nat" where
  "matchCount cfg draws i =
     (let refA = getReferenceBase (numbers (draws ! (i - lookback cfg))) cfg;
          refB = map_option (\<lambda>a. (a + 5) mod 10) refA
      in length (filter (\<lambda>tidx.
           let n = js_index (numbers (draws ! i)) tidx
           in js_eq n refA \<or> js_eq n refB) (targetIndices cfg)))"

definition period_isWin :: "StrategyConfig \<Rightarrow> DrawData list \<Rightarrow> nat \<Rightarrow> bool" where
  "period_isWin cfg draws i = (matchCount cfg draws i = 1)"

text \<open>Lines 137-163: the rest of the loop body, for the period's outcome and year.\<close>

definition as_track :: "nat \<Rightarrow> bool \<Rightarrow> jsstring \<Rightarrow> pass_state \<Rightarrow> pass_state" where
  "as_track i w y st =
     (let winHistory = (acc_winHistory st)[i := w];
          profit = (if w then WIN_PROFIT else LOSE_COST);
          totalProfit = acc_totalProfit st + profit;
          peakProfit = (if totalProfit > acc_peakProfit st then totalProfit else acc_peakProfit st);
          drawdown = peakProfit - totalProfit;
          maxDrawdown = (if drawdown > acc_maxDrawdown st then drawdown else acc_maxDrawdown st);
          cs = acc_currentStreak st;
          sc = acc_streakCounts st;
          st1 = st \<lparr> acc_winHistory := winHistory, acc_totalProfit := totalProfit,
                     acc_peakProfit := peakProfit, acc_maxDrawdown := maxDrawdown,
                     acc_annualMap := annual_add y profit w (acc_annualMap st) \<rparr>
      in if w then
           (let sc' = (if cs > 0 then sc
                       else if cs < 0 then sc \<lparr> loss := bump \<bar>cs\<bar> (loss sc) \<rparr> else sc);
                cs' = (if cs > 0 then cs + 1 else 1)
            in st1 \<lparr> acc_winDraws := acc_winDraws st + 1,
                     acc_streakCounts := sc', acc_currentStreak := cs',
                     acc_maxWinStreak := (if cs' > acc_maxWinStreak st then cs' else acc_maxWinStreak st) \<rparr>)
         else
           (let sc' = (if cs < 0 then sc
                       else if cs > 0 then sc \<lparr> win := bump cs (win sc) \<rparr> else sc);
                cs' = (if cs < 0 then cs - 1 else - 1)
            in st1 \<lparr> acc_streakCounts := sc', acc_currentStreak := cs',
                     acc_maxLoseStreak := (if \<bar>cs'\<bar> > acc_maxLoseStreak st then \<bar>cs'\<bar> else acc_maxLoseStreak st) \<rparr>))"

definition as_step :: "StrategyConfig \<Rightarrow> DrawData list \<Rightarrow> pass_state \<Rightarrow> nat \<Rightarrow> pass_state" where
  "as_step cfg draws st i =
     as_track i (period_isWin cfg draws i) (year_of (issue (draws ! i))) st"

text \<open>\<open>for (let i = lookback; i < drawCount; i++)\<close>.\<close>

definition as_pass :: "StrategyConfig \<Rightarrow> DrawData list \<Rightarrow> pass_state" where
  "as_pass cfg draws =
     foldl (as_step cfg draws) (init_state (length draws)) [lookback cfg ..< length draws]"

text \<open>Lines 165-166: the flush of the open streak.\<close>

definition flush :: "int \<Rightarrow> StreakCountsPair \<Rightarrow> StreakCountsPair" where
  "flush cs sc =
     (if cs > 0 then sc \<lparr> win := bump cs (win sc) \<rparr>
      else if cs < 0 then sc \<lparr> loss := bump \<bar>cs\<bar> (loss sc) \<rparr>
      else sc)"

text \<open>
  Lines 176-181: the forward simulation from \<open>j\<close>, with its \<open>break\<close>. A read of
  \<open>winHistory[j]\<close> out of range would be \<open>undefined\<close>, which is falsy.
\<close>

function simLoop :: "bool list \<Rightarrow> nat \<Rightarrow> nat \<Rightarrow> int \<Rightarrow> int \<Rightarrow> int" where
  "simLoop wh drawCount j simPnL simCount =
     (if j < drawCount then
        (let simPnL' = simPnL + (if j < length wh \<and> wh ! j then WIN_PROFIT else LOSE_COST);
             simCount' = simCount + 1
         in if simPnL' \<le> - 1000 then simCount'
            else simLoop wh drawCount (j + 1) simPnL' simCount')
      else simCount)"
  by pat_completeness auto
termination
  by (relation "measure (\<lambda>(wh, drawCount, j, simPnL, simCount). drawCount - j)") auto

text \<open>Lines 169-186: one iteration of the survival loop, on (tempStreak, survivalPeriods).\<close>

definition surv_step :: "bool list \<Rightarrow> nat \<Rightarrow> int \<times> int list \<Rightarrow> nat \<Rightarrow> int \<times> int list" where
  "surv_step wh drawCount s i =
     (let (tempStreak, survivalPeriods) = s
      in if i < length wh \<and> wh ! i then
           ((if tempStreak < 0 then 0 else tempStreak) + 1, survivalPeriods)
         else
           (- 1, if tempStreak \<ge> 9
                 then survivalPeriods @ [simLoop wh drawCount (i + 1) 0 0]
                 else survivalPeriods))"

definition survival :: "bool list \<Rightarrow> nat \<Rightarrow> nat \<Rightarrow> int list" where
  "survival wh lb drawCount = snd (foldl (surv_step wh drawCount) (0, []) [lb ..< drawCount])"

subsection \<open>Floating point\<close>

text \<open>
  The binade of a positive real: the exponent \<open>e\<close> with \<open>2^e \<le> x < 2^(e+1)\<close>, found by
  halving or doubling at most \<open>n\<close> times.
\<close>

fun binade :: "nat \<Rightarrow> real \<Rightarrow> int \<Rightarrow> int" where
  "binade 0 x e = e"
| "binade (Suc n) x e =
     (if 2 \<le> x then binade n (x / 2) (e + 1)
      else if x < 1 then binade n (x * 2) (e - 1)
      else e)"

text \<open>The nearest integer, the even one at a tie.\<close>

definition round_half_even :: "real \<Rightarrow> int" where
  "round_half_even x =
     (let f = \<lfloor>x\<rfloor>; d = x - of_int f
      in if d < 1 / 2 then f else if 1 / 2 < d then f + 1 else if even f then f else f + 1)"

text \<open>
  The double nearest to a real of magnitude below \<open>2^1024\<close> (IEEE 754 binary64, round to
  nearest, ties to even): 53 significant bits in the binade of the real, and steps of
  \<open>2^-1074\<close> below \<open>2^-1022\<close>. Every arithmetic operation of the source on doubles is the
  exact operation followed by this rounding.
\<close>

definition to_double :: "real \<Rightarrow> real" where
  "to_double x =
     (if x = 0 then 0
      else (let e = max (binade 1100 \<bar>x\<bar> 0) (- 1022);
                ulp = 2 powi (e - 52)
            in sgn x * of_int (round_half_even (\<bar>x\<bar> / ulp)) * ulp))"

definition js_div :: "real \<Rightarrow> real \<Rightarrow> real" where
  "js_div a b = to_double (a / b)"

definition js_mul :: "real \<Rightarrow> real \<Rightarrow> real" where
  "js_mul a b = to_double (a * b)"

text \<open>
  \<open>Number(x.toFixed(3))\<close> for a double \<open>x\<close> of magnitude below \<open>10^21\<close>: the decimal \<open>n / 1000\<close>
  with the integer \<open>n\<close> nearest to \<open>1000 * x\<close> in magnitude (the larger one at a tie), read
  back as a double.
\<close>

definition toFixed3 :: "real \<Rightarrow> real" where
  "toFixed3 x = to_double (sgn x * of_int \<lfloor>\<bar>x\<bar> * 1000 + 1 / 2\<rfloor> / 1000)"

text \<open>
  \<open>survivalStats\<close>: the sum of the periods is an integer, held exactly; the average is one
  division.
\<close>

definition mk_survivalStats :: "int list \<Rightarrow> SurvivalStats" where
  "mk_survivalStats ps =
     \<lparr> count = int (length ps), periods = ps,
       avgPeriods = (if length ps > 0
                     then js_div (of_int (sum_list ps)) (of_int (int (length ps))) else 0) \<rparr>"

subsection \<open>Sorting the years\<close>

text \<open>
  \<open>arr.sort(cmp)\<close>: the sort of JavaScript is stable, and for a consistent comparator (a
  total preorder, as a collation is) the stable sorted arrangement is unique; it is the
  one that insertion from the right builds.
\<close>

fun insert_by :: "('a \<Rightarrow> 'a \<Rightarrow> int) \<Rightarrow> 'a \<Rightarrow> 'a list \<Rightarrow> 'a list" where
  "insert_by cmp x [] = [x]"
| "insert_by cmp x (y # ys) = (if cmp x y \<le> 0 then x # y # ys else y # insert_by cmp x ys)"

definition sort_by :: "('a \<Rightarrow> 'a \<Rightarrow> int) \<Rightarrow> 'a list \<Rightarrow> 'a list" where
  "sort_by cmp xs = foldr (insert_by cmp) xs []"

text \<open>
  \<open>Array.from(annualMap.entries()).map(...).sort((a, b) => a.year.localeCompare(b.year))\<close>.
  \<open>String.prototype.localeCompare\<close> is the collation of the host's locale: it is the
  parameter \<open>localeCompare\<close> of this function and of \<open>analyzeStrategy\<close>, a number that is
  negative, zero or positive.
\<close>

definition as_annualStats ::
  "(jsstring \<Rightarrow> jsstring \<Rightarrow> int) \<Rightarrow> (jsstring \<times> int \<times> int \<times> int) list \<Rightarrow> AnnualStat list" where
  "as_annualStats localeCompare m =
     sort_by (\<lambda>a b. localeCompare (year a) (year b))
       (map (\<lambda>(y, p, w, c). \<lparr> year = y, profit = p, winCount = w, totalCount = c \<rparr>) m)"

definition analyzeStrategy ::
  "(jsstring \<Rightarrow> jsstring \<Rightarrow> int) \<Rightarrow> StrategyConfig \<Rightarrow> DrawData list \<Rightarrow> StrategyStats" where
  "analyzeStrategy localeCompare cfg draws =
     (let drawCount = length draws;
          st = as_pass cfg draws;
          streakCounts = flush (acc_currentStreak st) (acc_streakCounts st);
          survivalPeriods = survival (acc_winHistory st) (lookback cfg) drawCount;
          processedDrawsCount = max 0 (int drawCount - int (lookback cfg));
          grossProfit = acc_winDraws st * WIN_PROFIT;
          grossLoss = (processedDrawsCount - acc_winDraws st) * \<bar>LOSE_COST\<bar>
      in \<lparr> config = cfg,
           totalDraws = processedDrawsCount,
           winDraws = acc_winDraws st,
           winRate = (if processedDrawsCount > 0
                      then js_mul (js_div (of_int (acc_winDraws st)) (of_int processedDrawsCount)) 100
                      else 0),
           totalProfit = acc_totalProfit st,
           profitRatio = (if grossLoss = 0 then of_int grossProfit
                          else toFixed3 (js_div (of_int grossProfit) (of_int grossLoss))),
           maxWinStreak = acc_maxWinStreak st,
           maxLoseStreak = acc_maxLoseStreak st,
           maxDrawdown = acc_maxDrawdown st,
           currentStreak = acc_currentStreak st,
           isOverheated = (acc_currentStreak st \<ge> OVERHEAT_THRESHOLD),
           annualStats = as_annualStats localeCompare (acc_annualMap st),
           streakCounts = streakCounts,
           survivalStats = mk_survivalStats survivalPeriods \<rparr>)"

section \<open>generateHistory\<close>

definition gh_step ::
  "StrategyConfig \<Rightarrow> DrawData list \<Rightarrow> int \<times> PeriodStat list \<Rightarrow> nat \<Rightarrow> int \<times> PeriodStat list" where
  "gh_step cfg draws s i =
     (let (cumulative, history) = s;
          w = period_isWin cfg draws i;
          profit = (if w then WIN_PROFIT else LOSE_COST);
          cumulative' = cumulative + profit
      in (cumulative',
          history @ [\<lparr> p_issue = issue (draws ! i), isWin = w, p_profit = profit,
                       cumulativeProfit = cumulative' \<rparr>]))"

definition generateHistory :: "StrategyConfig \<Rightarrow> DrawData list \<Rightarrow> PeriodStat list" where
  "generateHistory cfg draws =
     snd (foldl (gh_step cfg draws) (0, []) [lookback cfg ..< length draws])"

section \<open>Enumeration helpers\<close>

text \<open>\<open>arr.flatMap((v, i) => getCombinations(arr.slice(i + 1), k - 1).map(c => [v, ...c]))\<close>.\<close>

fun getCombinations :: "'a list \<Rightarrow> nat \<Rightarrow> 'a list list" where
  "getCombinations arr 0 = [[]]"
| "getCombinations arr (Suc k) =
     concat (map (\<lambda>i. map (\<lambda>c. (arr ! i) # c) (getCombinations (drop (i + 1) arr) k))
                 [0 ..< length arr])"

text \<open>
  \<open>getOpPermutations(length)\<close> stops at \<open>length === 1\<close> only: from 0 it recurses without
  end, which is the value \<open>None\<close>.
\<close>

definition ops_all :: "OpType list" where
  "ops_all = [Plus, Minus, Times]"

fun getOpPermutations :: "nat \<Rightarrow> OpType list list option" where
  "getOpPermutations 0 = None"
| "getOpPermutations (Suc 0) = Some (map (\<lambda>o1. [o1]) ops_all)"
| "getOpPermutations (Suc (Suc n)) =
     (case getOpPermutations (Suc n) of
        None \<Rightarrow> None
      | Some sub \<Rightarrow> Some (concat (map (\<lambda>o1. map (\<lambda>s. o1 # s) sub) ops_all)))"

text \<open>The five position names, as UTF-8 bytes.\<close>

definition POS_NAMES :: "string list" where
  "POS_NAMES =
     [[CHR 0xE4, CHR 0xB8, CHR 0x87], [CHR 0xE5, CHR 0x8D, CHR 0x83],
      [CHR 0xE7, CHR 0x99, CHR 0xBE], [CHR 0xE5, CHR 0x8D, CHR 0x81],
      [CHR 0xE4, CHR 0xB8, CHR 0xAA]]"

definition OFFSETS :: "nat list" where
  "OFFSETS = [0, 1, 2, 3, 4]"

definition LOOKBACKS :: "nat list" where
  "LOOKBACKS = [1, 2, 3, 4, 5, 6, 7, 8, 9, 10, 11, 12]"

definition positions :: "nat list" where
  "positions = [0, 1, 2, 3, 4]"

definition targetGroups :: "nat list list" where
  "targetGroups = getCombinations positions 3"

subsection \<open>Strings of template literals\<close>

definition digit_char :: "nat \<Rightarrow> char" where
  "digit_char d = char_of (48 + d)"

text \<open>\<open>String(n)\<close> for a non-negative integer: its decimal digits.\<close>

function num_toString :: "nat \<Rightarrow> string" where
  "num_toString n =
     (if n < 10 then [digit_char n] else num_toString (n div 10) @ [digit_char (n mod 10)])"
  by pat_completeness auto
termination
  by (relation "measure (\<lambda>n. n)") auto

text \<open>\<open>xs.join('')\<close> on numbers.\<close>

definition join_nums :: "nat list \<Rightarrow> string" where
  "join_nums xs = concat (map num_toString xs)"

fun op_str :: "OpType \<Rightarrow> string" where
  "op_str Plus = ''+''"
| "op_str Minus = ''-''"
| "op_str Times = ''*''"

definition join_ops :: "OpType list \<Rightarrow> string" where
  "join_ops ops = concat (map op_str ops)"

fun type_str :: "FormulaType \<Rightarrow> string" where
  "type_str ONE_POS = ''1-Pos''"
| "type_str TWO_POS = ''2-Pos''"
| "type_str THREE_POS = ''3-Pos''"
| "type_str FOUR_POS = ''4-Pos''"
| "type_str FIVE_POS = ''5-Pos''"

text \<open>\<open>${POS_NAMES[inputs[k]]}\<close> and \<open>${ops[k]}\<close>: an undefined value prints as its name.\<close>

definition pos_name :: "nat list \<Rightarrow> nat \<Rightarrow> string" where
  "pos_name inputs k =
     (case js_index inputs k of
        None \<Rightarrow> ''undefined''
      | Some p \<Rightarrow> (case js_index POS_NAMES p of None \<Rightarrow> ''undefined'' | Some s \<Rightarrow> s))"

definition op_name :: "OpType list \<Rightarrow> nat \<Rightarrow> string" where
  "op_name ops k = (case js_index ops k of None \<Rightarrow> ''undefined'' | Some c \<Rightarrow> op_str c)"

text \<open>The id of a configuration (line 52, and line 477 of the worker).\<close>

definition mk_id :: "FormulaType \<Rightarrow> nat list \<Rightarrow> OpType list \<Rightarrow> nat list \<Rightarrow> nat \<Rightarrow> nat \<Rightarrow> string" where
  "mk_id ty inputs ops targets off lb =
     type_str ty @ ''-'' @ join_nums inputs @ ''-'' @ join_ops ops @ ''-T'' @ join_nums targets
       @ ''-K'' @ num_toString off @ ''-L'' @ num_toString lb"

definition nameSuffix :: "nat \<Rightarrow> string" where
  "nameSuffix off = (if off > 0 then ''+'' @ num_toString off else [])"

definition lbSuffix :: "nat \<Rightarrow> string" where
  "lbSuffix lb =
     (if lb > 1 then ''('' @ [CHR 0xE5, CHR 0x9B, CHR 0x9E] @ num_toString lb @ '')'' else [])"

subsection \<open>The formula definitions\<close>

record formula =
  f_type :: FormulaType
  f_inputs :: "nat list"
  f_ops :: "OpType list"
  f_name :: string

text \<open>The display names of lines 285-301 (and 67-79).\<close>

definition name2 :: "nat list \<Rightarrow> OpType list \<Rightarrow> string" where
  "name2 inputs ops = pos_name inputs 0 @ op_name ops 0 @ pos_name inputs 1"

definition name3 :: "nat list \<Rightarrow> OpType list \<Rightarrow> string" where
  "name3 inputs ops = name2 inputs ops @ op_name ops 1 @ pos_name inputs 2"

definition name4 :: "nat list \<Rightarrow> OpType list \<Rightarrow> string" where
  "name4 inputs ops = name3 inputs ops @ op_name ops 2 @ pos_name inputs 3"

definition name5 :: "OpType list \<Rightarrow> string" where
  "name5 ops = name4 [0, 1, 2, 3, 4] ops @ op_name ops 3 @ pos_name [4] 0"

text \<open>\<open>inputGroups.forEach(inputs => opsK.forEach(ops => formulas.push(...)))\<close>.\<close>

definition formulas_of ::
  "FormulaType \<Rightarrow> (nat list \<Rightarrow> OpType list \<Rightarrow> string) \<Rightarrow> nat list list \<Rightarrow> OpType list list \<Rightarrow> formula list" where
  "formulas_of ty nm inputGroups opsK =
     concat (map (\<lambda>inputs. map (\<lambda>ops.
       \<lparr> f_type = ty, f_inputs = inputs, f_ops = ops, f_name = nm inputs ops \<rparr>) opsK) inputGroups)"

definition formulas :: "formula list option" where
  "formulas =
     do {
       ops2 \<leftarrow> getOpPermutations 1;
       ops3 \<leftarrow> getOpPermutations 2;
       ops4 \<leftarrow> getOpPermutations 3;
       ops5 \<leftarrow> getOpPermutations 4;
       Some
         (map (\<lambda>idx. \<lparr> f_type = ONE_POS, f_inputs = [idx], f_ops = [],
                        f_name = pos_name [idx] 0 \<rparr>) positions
          @ formulas_of TWO_POS name2 (getCombinations positions 2) ops2
          @ formulas_of THREE_POS name3 (getCombinations positions 3) ops3
          @ formulas_of FOUR_POS name4 (getCombinations positions 4) ops4
          @ map (\<lambda>ops. \<lparr> f_type = FIVE_POS, f_inputs = [0, 1, 2, 3, 4], f_ops = ops,
                          f_name = name5 ops \<rparr>) ops5)
     }"

section \<open>generateStrategies\<close>

text \<open>\<open>addVariations\<close>: targets, then offsets, then lookbacks.\<close>

definition addVariations ::
  "FormulaType \<Rightarrow> nat list \<Rightarrow> OpType list \<Rightarrow> string \<Rightarrow> StrategyConfig list" where
  "addVariations ty inputs ops baseName =
     concat (map (\<lambda>targets. concat (map (\<lambda>off. map (\<lambda>lb.
       \<lparr> id_str = mk_id ty inputs ops targets off lb,
         ftype = ty, inputIndices = inputs, operators = ops, offset = off,
         targetIndices = targets, lookback = lb,
         name = baseName @ nameSuffix off @ lbSuffix lb \<rparr>) LOOKBACKS) OFFSETS)) targetGroups)"

definition variations_of ::
  "FormulaType \<Rightarrow> (nat list \<Rightarrow> OpType list \<Rightarrow> string) \<Rightarrow> nat list list \<Rightarrow> OpType list list \<Rightarrow> StrategyConfig list" where
  "variations_of ty nm inputGroups opsK =
     concat (map (\<lambda>inputs. concat (map (\<lambda>ops.
       addVariations ty inputs ops (nm inputs ops)) opsK)) inputGroups)"

definition generateStrategies :: "StrategyConfig list option" where
  "generateStrategies =
     do {
       ops2 \<leftarrow> getOpPermutations 1;
       ops3 \<leftarrow> getOpPermutations 2;
       ops4 \<leftarrow> getOpPermutations 3;
       ops5 \<leftarrow> getOpPermutations 4;
       Some
         (concat (map (\<lambda>idx. addVariations ONE_POS [idx] [] (pos_name [idx] 0)) positions)
          @ variations_of TWO_POS name2 (getCombinations positions 2) ops2
          @ variations_of THREE_POS name3 (getCombinations positions 3) ops3
          @ variations_of FOUR_POS name4 (getCombinations positions 4) ops4
          @ concat (map (\<lambda>ops. addVariations FIVE_POS [0, 1, 2, 3, 4] ops (name5 ops)) ops5))
     }"

section \<open>The worker (batch run)\<close>

text \<open>The inlined formula evaluation of lines 320-341; its last branch is a plain \<open>else\<close>.\<close>

fun wk_ops_loop :: "int list \<Rightarrow> nat list \<Rightarrow> OpType list \<Rightarrow> nat \<Rightarrow> jsnum \<Rightarrow> jsnum" where
  "wk_ops_loop srcNum inputs [] k t = t"
| "wk_ops_loop srcNum inputs (op # rest) k t =
     wk_ops_loop srcNum inputs rest (k + 1)
       (if op = Plus then js_arith (+) t (js_index2 srcNum inputs (k + 1))
        else if op = Minus then js_arith (-) t (js_index2 srcNum inputs (k + 1))
        else js_arith (*) t (js_index2 srcNum inputs (k + 1)))"

definition wk_sum :: "formula \<Rightarrow> int list \<Rightarrow> jsnum" where
  "wk_sum form srcNum =
     (if f_type form = ONE_POS then js_index2 srcNum (f_inputs form) 0
      else if f_type form = TWO_POS then
        (let v1 = js_index2 srcNum (f_inputs form) 0; v2 = js_index2 srcNum (f_inputs form) 1
         in ternary_op (js_index (f_ops form) 0) v1 v2)
      else if f_type form = THREE_POS then
        (let t = js_index2 srcNum (f_inputs form) 0;
             t = ternary_op (js_index (f_ops form) 0) t (js_index2 srcNum (f_inputs form) 1)
         in ternary_op (js_index (f_ops form) 1) t (js_index2 srcNum (f_inputs form) 2))
      else wk_ops_loop srcNum (f_inputs form) (f_ops form) 0 (js_index2 srcNum (f_inputs form) 0))"

text \<open>
  \<open>refBaseArray[i] = Math.abs(sum) % 10\<close> into an \<open>Int8Array\<close>, which stores 0 for \<open>NaN\<close>.
\<close>

definition wk_base :: "formula \<Rightarrow> int list \<Rightarrow> int" where
  "wk_base form srcNum = (case wk_sum form srcNum of None \<Rightarrow> 0 | Some s \<Rightarrow> \<bar>s\<bar> mod 10)"

definition wk_refBaseArray :: "formula \<Rightarrow> nat \<Rightarrow> DrawData list \<Rightarrow> int list" where
  "wk_refBaseArray form lb draws =
     foldl (\<lambda>arr i. arr[i := wk_base form (numbers (draws ! (i - lb)))])
       (replicate (length draws) 0) [lb ..< length draws]"

text \<open>Lines 351-358: the two reference arrays of an offset.\<close>

definition wk_refArrays :: "int list \<Rightarrow> nat \<Rightarrow> nat \<Rightarrow> nat \<Rightarrow> int list \<times> int list" where
  "wk_refArrays refBaseArray off lb drawCount =
     foldl (\<lambda>(refA_Array, refB_Array) i.
              let ra = (refBaseArray ! i + int off) mod 10
              in (refA_Array[i := ra], refB_Array[i := (ra + 5) mod 10]))
       (replicate drawCount 0, replicate drawCount 0) [lb ..< drawCount]"

text \<open>Lines 381-392: the three target tests.\<close>

definition wk_matches :: "DrawData list \<Rightarrow> nat list \<Rightarrow> int list \<Rightarrow> int list \<Rightarrow> nat \<Rightarrow> nat" where
  "wk_matches draws targets refA_Array refB_Array i =
     (let n = numbers (draws ! i);
          ra = Some (refA_Array ! i);
          rb = Some (refB_Array ! i);
          matches = 0;
          matches = (if js_eq (js_index2 n targets 0) ra \<or> js_eq (js_index2 n targets 0) rb
                     then matches + 1 else matches);
          matches = (if js_eq (js_index2 n targets 1) ra \<or> js_eq (js_index2 n targets 1) rb
                     then matches + 1 else matches);
          matches = (if js_eq (js_index2 n targets 2) ra \<or> js_eq (js_index2 n targets 2) rb
                     then matches + 1 else matches)
      in matches)"

definition wk_isWin :: "DrawData list \<Rightarrow> nat list \<Rightarrow> int list \<Rightarrow> int list \<Rightarrow> nat \<Rightarrow> bool" where
  "wk_isWin draws targets refA_Array refB_Array i =
     (wk_matches draws targets refA_Array refB_Array i = 1)"

text \<open>Lines 393-425: the rest of the inner loop body.\<close>

definition wk_track :: "nat \<Rightarrow> bool \<Rightarrow> jsstring \<Rightarrow> pass_state \<Rightarrow> pass_state" where
  "wk_track i w y st =
     (let winHistory = (acc_winHistory st)[i := w];
          profit = (if w then WIN_PROFIT else LOSE_COST);
          totalProfit = acc_totalProfit st + profit;
          peakProfit = (if totalProfit > acc_peakProfit st then totalProfit else acc_peakProfit st);
          dd = peakProfit - totalProfit;
          maxDrawdown = (if dd > acc_maxDrawdown st then dd else acc_maxDrawdown st);
          cs = acc_currentStreak st;
          sc = acc_streakCounts st;
          st1 = st \<lparr> acc_winHistory := winHistory, acc_totalProfit := totalProfit,
                     acc_peakProfit := peakProfit, acc_maxDrawdown := maxDrawdown,
                     acc_annualMap := annual_add y profit w (acc_annualMap st) \<rparr>
      in if w then
           (let sc' = (if cs > 0 then sc
                       else if cs < 0 then sc \<lparr> loss := bump (- cs) (loss sc) \<rparr> else sc);
                cs' = (if cs > 0 then cs + 1 else 1)
            in st1 \<lparr> acc_winDraws := acc_winDraws st + 1,
                     acc_streakCounts := sc', acc_currentStreak := cs',
                     acc_maxWinStreak := (if cs' > acc_maxWinStreak st then cs' else acc_maxWinStreak st) \<rparr>)
         else
           (let sc' = (if cs < 0 then sc
                       else if cs > 0 then sc \<lparr> win := bump cs (win sc) \<rparr> else sc);
                cs' = (if cs < 0 then cs - 1 else - 1)
            in st1 \<lparr> acc_streakCounts := sc', acc_currentStreak := cs',
                     acc_maxLoseStreak := (if - cs' > acc_maxLoseStreak st then - cs' else acc_maxLoseStreak st) \<rparr>))"

definition wk_step ::
  "DrawData list \<Rightarrow> nat list \<Rightarrow> int list \<Rightarrow> int list \<Rightarrow> pass_state \<Rightarrow> nat \<Rightarrow> pass_state" where
  "wk_step draws targets refA_Array refB_Array st i =
     wk_track i (wk_isWin draws targets refA_Array refB_Array i) (year_of (issue (draws ! i))) st"

definition wk_pass :: "DrawData list \<Rightarrow> nat \<Rightarrow> nat list \<Rightarrow> int list \<Rightarrow> int list \<Rightarrow> pass_state" where
  "wk_pass draws lb targets refA_Array refB_Array =
     foldl (wk_step draws targets refA_Array refB_Array) (init_state (length draws))
       [lb ..< length draws]"

text \<open>Lines 429-433.\<close>

definition wk_flush :: "int \<Rightarrow> StreakCountsPair \<Rightarrow> StreakCountsPair" where
  "wk_flush cs sc =
     (if cs > 0 then sc \<lparr> win := bump cs (win sc) \<rparr>
      else if cs < 0 then sc \<lparr> loss := bump (- cs) (loss sc) \<rparr>
      else sc)"

text \<open>Lines 445-451 and 436-456: the survival statistics on the \<open>Uint8Array\<close>.\<close>

function wk_simLoop :: "bool list \<Rightarrow> nat \<Rightarrow> nat \<Rightarrow> int \<Rightarrow> int \<Rightarrow> int" where
  "wk_simLoop wh drawCount j simPnL simCount =
     (if j < drawCount then
        (let simPnL' = simPnL + (if j < length wh \<and> wh ! j then WIN_PROFIT else LOSE_COST);
             simCount' = simCount + 1
         in if simPnL' \<le> - 1000 then simCount'
            else wk_simLoop wh drawCount (j + 1) simPnL' simCount')
      else simCount)"
  by pat_completeness auto
termination
  by (relation "measure (\<lambda>(wh, drawCount, j, simPnL, simCount). drawCount - j)") auto

definition wk_surv_step :: "bool list \<Rightarrow> nat \<Rightarrow> int \<times> int list \<Rightarrow> nat \<Rightarrow> int \<times> int list" where
  "wk_surv_step wh drawCount s i =
     (let (tempStreak, survivalPeriods) = s
      in if i < length wh \<and> wh ! i then
           ((if tempStreak < 0 then 0 else tempStreak) + 1, survivalPeriods)
         else
           (- 1, if tempStreak \<ge> 9
                 then survivalPeriods @ [wk_simLoop wh drawCount (i + 1) 0 0]
                 else survivalPeriods))"

definition wk_survival :: "bool list \<Rightarrow> nat \<Rightarrow> nat \<Rightarrow> int list" where
  "wk_survival wh lb drawCount =
     snd (foldl (wk_surv_step wh drawCount) (0, []) [lb ..< drawCount])"

text \<open>
  \<open>Object.keys(annualMap).sort().map(...)\<close>: the default sort of strings is the
  lexicographic order of their code units; each key comes with its entry (a key of the
  object always has one).
\<close>

definition wk_annualStats :: "(jsstring \<times> int \<times> int \<times> int) list \<Rightarrow> AnnualStat list" where
  "wk_annualStats m =
     map (\<lambda>y. case map_of m y of
                 None \<Rightarrow> \<lparr> year = y, profit = 0, winCount = 0, totalCount = 0 \<rparr>
               | Some (p, w, c) \<Rightarrow> \<lparr> year = y, profit = p, winCount = w, totalCount = c \<rparr>)
         (sort (map fst m))"

text \<open>Lines 364-503: the analysis of one (formula, lookback, offset, targets) and its entry.\<close>

definition wk_entry ::
  "DrawData list \<Rightarrow> formula \<Rightarrow> nat \<Rightarrow> nat \<Rightarrow> nat list \<Rightarrow> int list \<Rightarrow> int list \<Rightarrow> StrategyStats" where
  "wk_entry draws form lb off targets refA_Array refB_Array =
     (let drawCount = length draws;
          st = wk_pass draws lb targets refA_Array refB_Array;
          streakCounts = wk_flush (acc_currentStreak st) (acc_streakCounts st);
          survivalPeriods = wk_survival (acc_winHistory st) lb drawCount;
          annualStats = wk_annualStats (acc_annualMap st);
          processedCount = max 0 (int drawCount - int lb);
          grossProfit = acc_winDraws st * WIN_PROFIT;
          grossLoss = (processedCount - acc_winDraws st) * \<bar>LOSE_COST\<bar>
      in \<lparr> config =
             \<lparr> id_str = mk_id (f_type form) (f_inputs form) (f_ops form) targets off lb,
               ftype = f_type form, inputIndices = f_inputs form, operators = f_ops form,
               offset = off, targetIndices = targets, lookback = lb,
               name = f_name form @ nameSuffix off @ lbSuffix lb \<rparr>,
           totalDraws = processedCount,
           winDraws = acc_winDraws st,
           winRate = (if processedCount > 0
                      then js_mul (js_div (of_int (acc_winDraws st)) (of_int processedCount)) 100
                      else 0),
           totalProfit = acc_totalProfit st,
           profitRatio = (if grossLoss = 0 then of_int grossProfit
                          else toFixed3 (js_div (of_int grossProfit) (of_int grossLoss))),
           maxWinStreak = acc_maxWinStreak st,
           maxLoseStreak = acc_maxLoseStreak st,
           maxDrawdown = acc_maxDrawdown st,
           currentStreak = acc_currentStreak st,
           isOverheated = (acc_currentStreak st \<ge> 8),
           annualStats = annualStats,
           streakCounts = streakCounts,
           survivalStats = mk_survivalStats survivalPeriods \<rparr>)"

text \<open>
  The entry of the result list for one combination, with the reference arrays the
  enclosing loops have computed for it.
\<close>

definition worker_entry :: "DrawData list \<Rightarrow> formula \<Rightarrow> nat \<Rightarrow> nat \<Rightarrow> nat list \<Rightarrow> StrategyStats" where
  "worker_entry draws form lb off targets =
     (let refBaseArray = wk_refBaseArray form lb draws;
          (refA_Array, refB_Array) = wk_refArrays refBaseArray off lb (length draws)
      in wk_entry draws form lb off targets refA_Array refB_Array)"

text \<open>\<open>self.onmessage\<close>: formulas, then lookbacks, then offsets, then target groups.\<close>

definition runWorker :: "DrawData list \<Rightarrow> StrategyStats list option" where
  "runWorker draws =
     do {
       fs \<leftarrow> formulas;
       Some (concat (map (\<lambda>form. concat (map (\<lambda>lb.
         let refBaseArray = wk_refBaseArray form lb draws
         in concat (map (\<lambda>off.
              let (refA_Array, refB_Array) = wk_refArrays refBaseArray off lb (length draws)
              in map (\<lambda>targets. wk_entry draws form lb off targets refA_Array refB_Array)
                     targetGroups) OFFSETS)) LOOKBACKS)) fs))
     }"

section \<open>Notions of the specification\<close>

text \<open>The fixed amount of a period.\<close>

definition profit_of :: "bool \<Rightarrow> int" where
  "profit_of w = (if w then WIN_PROFIT else LOSE_COST)"

text \<open>
  The outcomes of the evaluated periods, in order: of \<open>analyzeStrategy\<close> (and
  \<open>generateHistory\<close>, which runs the same test), and of the worker for one combination.
\<close>

definition as_outcomes :: "StrategyConfig \<Rightarrow> DrawData list \<Rightarrow> bool list" where
  "as_outcomes cfg draws = map (period_isWin cfg draws) [lookback cfg ..< length draws]"

definition wk_outcomes :: "DrawData list \<Rightarrow> formula \<Rightarrow> nat \<Rightarrow> nat \<Rightarrow> nat list \<Rightarrow> bool list" where
  "wk_outcomes draws form lb off targets =
     (let refBaseArray = wk_refBaseArray form lb draws;
          (refA_Array, refB_Array) = wk_refArrays refBaseArray off lb (length draws)
      in map (wk_isWin draws targets refA_Array refB_Array) [lb ..< length draws])"

subsection \<open>Drawdown\<close>

text \<open>
  The cumulative profit before the first period (0) and after each period; the running
  peak at step \<open>k\<close> is the largest of the first \<open>k + 1\<close> of these values, so the starting
  balance 0 counts for the peak.
\<close>

definition cum_profits :: "bool list \<Rightarrow> int list" where
  "cum_profits ws = map (\<lambda>k. sum_list (map profit_of (take k ws))) [0 ..< Suc (length ws)]"

definition running_peak :: "bool list \<Rightarrow> nat \<Rightarrow> int" where
  "running_peak ws k = Max (set (take (Suc k) (cum_profits ws)))"

definition drawdown_at :: "bool list \<Rightarrow> nat \<Rightarrow> int" where
  "drawdown_at ws k = running_peak ws k - cum_profits ws ! k"

definition spec_maxDrawdown :: "bool list \<Rightarrow> int" where
  "spec_maxDrawdown ws = Max (set (map (drawdown_at ws) [0 ..< Suc (length ws)]))"

subsection \<open>Streaks\<close>

text \<open>The maximal runs of equal outcomes, in order, each with its value and its length.\<close>

fun runs :: "bool list \<Rightarrow> (bool \<times> int) list" where
  "runs [] = []"
| "runs (x # xs) =
     (case runs xs of
        [] \<Rightarrow> [(x, 1)]
      | (y, n) # r \<Rightarrow> if x = y then (y, n + 1) # r else (x, 1) # (y, n) # r)"

text \<open>The number of maximal runs of value \<open>b\<close> and length \<open>L\<close>.\<close>

definition run_count :: "bool \<Rightarrow> int \<Rightarrow> bool list \<Rightarrow> int" where
  "run_count b L ws = int (length (filter (\<lambda>r. r = (b, L)) (runs ws)))"

text \<open>The content of the bucket \<open>L\<close> of a histogram (0 when the key is absent).\<close>

definition hist_count :: "StreakCounts \<Rightarrow> int \<Rightarrow> int" where
  "hist_count h L = (case map_of h L of None \<Rightarrow> 0 | Some c \<Rightarrow> c)"

text \<open>The sum of all buckets of both histograms.\<close>

definition hist_total :: "StreakCountsPair \<Rightarrow> int" where
  "hist_total sc = sum_list (map snd (win sc)) + sum_list (map snd (loss sc))"

subsection \<open>The empty pass\<close>

text \<open>The result with no evaluated period: every count and rate 0, every collection empty.\<close>

definition zero_stats :: "StrategyConfig \<Rightarrow> StrategyStats" where
  "zero_stats cfg =
     \<lparr> config = cfg, totalDraws = 0, winDraws = 0, winRate = 0, totalProfit = 0,
       profitRatio = 0, maxWinStreak = 0, maxLoseStreak = 0, maxDrawdown = 0,
       currentStreak = 0, isOverheated = False, annualStats = [],
       streakCounts = \<lparr> win = [], loss = [] \<rparr>,
       survivalStats = \<lparr> count = 0, periods = [], avgPeriods = 0 \<rparr> \<rparr>"

subsection \<open>Concrete inputs\<close>

text \<open>The code units of an ASCII string.\<close>

definition utf16 :: "string \<Rightarrow> jsstring" where
  "utf16 s = map (\<lambda>c. word_of_nat (of_char c)) s"

text \<open>A collation that is the order of the code units.\<close>

definition code_unit_compare :: "jsstring \<Rightarrow> jsstring \<Rightarrow> int" where
  "code_unit_compare a b = (if a < b then - 1 else if a = b then 0 else 1)"

text \<open>
  A collation that ignores the case of ASCII letters: like the collations of locales, it
  puts \<open>a\<close> before \<open>B\<close>, which the order of the code units does not.
\<close>

definition fold_case :: "16 word \<Rightarrow> 16 word" where
  "fold_case u = (if 0x41 \<le> u \<and> u \<le> 0x5A then u + 0x20 else u)"

definition caseless_compare :: "jsstring \<Rightarrow> jsstring \<Rightarrow> int" where
  "caseless_compare a b = code_unit_compare (map fold_case a) (map fold_case b)"

text \<open>The scenario of the specification: two draws, the formula "position 0".\<close>

definition draw_2024001 :: DrawData where
  "draw_2024001 =
     \<lparr> issue = utf16 ''2024001'', date = utf16 ''2024'', numbers = [1, 2, 3, 4, 5] \<rparr>"

definition draw_2024002 :: DrawData where
  "draw_2024002 =
     \<lparr> issue = utf16 ''2024002'', date = utf16 ''2024'', numbers = [6, 2, 3, 4, 5] \<rparr>"

definition form_pos0 :: formula where
  "form_pos0 = \<lparr> f_type = ONE_POS, f_inputs = [0], f_ops = [], f_name = pos_name [0] 0 \<rparr>"

definition cfg_pos0 :: StrategyConfig where
  "cfg_pos0 =
     \<lparr> id_str = mk_id ONE_POS [0] [] [0, 1, 2] 0 1, ftype = ONE_POS, inputIndices = [0],
       operators = [], offset = 0, targetIndices = [0, 1, 2], lookback = 1,
       name = pos_name [0] 0 \<rparr>"

text \<open>A second draw in which two of the target positions 0, 1, 2 hold a reference (6 and 1).\<close>

definition draw_two_hits :: DrawData where
  "draw_two_hits =
     \<lparr> issue = utf16 ''2024002'', date = utf16 ''2024'', numbers = [6, 1, 3, 4, 5] \<rparr>"

text \<open>
  Three draws as \<open>parseCSV\<close> returns them for the lines \<open>a024001,12345\<close>, \<open>a024002,62345\<close>
  and \<open>B023003,61345\<close> (it sorts the issues with \<open>localeCompare\<close>): the evaluated periods
  fall into the years \<open>a024\<close> and \<open>B023\<close>.
\<close>

definition draw_a024001 :: DrawData where
  "draw_a024001 =
     \<lparr> issue = utf16 ''a024001'', date = utf16 ''a024'', numbers = [1, 2, 3, 4, 5] \<rparr>"

definition draw_a024002 :: DrawData where
  "draw_a024002 =
     \<lparr> issue = utf16 ''a024002'', date = utf16 ''a024'', numbers = [6, 2, 3, 4, 5] \<rparr>"

definition draw_B023003 :: DrawData where
  "draw_B023003 =
     \<lparr> issue = utf16 ''B023003'', date = utf16 ''B023'', numbers = [6, 1, 3, 4, 5] \<rparr>"

definition draws_aB :: "DrawData list" where
  "draws_aB = [draw_a024001, draw_a024002, draw_B023003]"

subsection \<open>References\<close>

fun apply_op :: "OpType \<Rightarrow> int \<Rightarrow> int \<Rightarrow> int" where
  "apply_op Plus a b = a + b"
| "apply_op Minus a b = a - b"
| "apply_op Times a b = a * b"

text \<open>
  The value of a formula on the numbers of a draw, strictly left to right with no
  precedence: the first input, then each operator applied to the value so far and the
  next input.
\<close>

definition spec_formula_value :: "nat list \<Rightarrow> OpType list \<Rightarrow> int list \<Rightarrow> int" where
  "spec_formula_value inputs ops nums =
     foldl (\<lambda>acc (op, p). apply_op op acc (nums ! p)) (nums ! hd inputs) (zip ops (tl inputs))"

text \<open>The base digit: the absolute value of the formula's value, modulo 10.\<close>

definition spec_base :: "nat list \<Rightarrow> OpType list \<Rightarrow> int list \<Rightarrow> int" where
  "spec_base inputs ops nums = \<bar>spec_formula_value inputs ops nums\<bar> mod 10"

fun degree :: "FormulaType \<Rightarrow> nat" where
  "degree ONE_POS = 1"
| "degree TWO_POS = 2"
| "degree THREE_POS = 3"
| "degree FOUR_POS = 4"
| "degree FIVE_POS = 5"

text \<open>
  A formula definition of the data model on a draw: as many inputs as its degree, one
  operator less, and every input a position of the draw.
\<close>

definition wf_formula :: "FormulaType \<Rightarrow> nat list \<Rightarrow> OpType list \<Rightarrow> int list \<Rightarrow> bool" where
  "wf_formula ty inputs ops nums =
     (length inputs = degree ty \<and> length ops = degree ty - 1
      \<and> list_all (\<lambda>p. p < length nums) inputs)"

text \<open>The formula of a configuration, as the worker holds it.\<close>

definition formula_of :: "StrategyConfig \<Rightarrow> string \<Rightarrow> formula" where
  "formula_of cfg nm =
     \<lparr> f_type = ftype cfg, f_inputs = inputIndices cfg, f_ops = operators cfg, f_name = nm \<rparr>"

text \<open>The references of draw \<open>i\<close>: of \<open>analyzeStrategy\<close>, and the worker's array cells.\<close>

definition as_refA :: "StrategyConfig \<Rightarrow> DrawData list \<Rightarrow> nat \<Rightarrow> jsnum" where
  "as_refA cfg draws i = getReferenceBase (numbers (draws ! (i - lookback cfg))) cfg"

definition as_refB :: "StrategyConfig \<Rightarrow> DrawData list \<Rightarrow> nat \<Rightarrow> jsnum" where
  "as_refB cfg draws i = map_option (\<lambda>a. (a + 5) mod 10) (as_refA cfg draws i)"

definition wk_refA :: "DrawData list \<Rightarrow> formula \<Rightarrow> nat \<Rightarrow> nat \<Rightarrow> nat \<Rightarrow> int" where
  "wk_refA draws form lb off i =
     fst (wk_refArrays (wk_refBaseArray form lb draws) off lb (length draws)) ! i"

definition wk_refB :: "DrawData list \<Rightarrow> formula \<Rightarrow> nat \<Rightarrow> nat \<Rightarrow> nat \<Rightarrow> int" where
  "wk_refB draws form lb off i =
     snd (wk_refArrays (wk_refBaseArray form lb draws) off lb (length draws)) ! i"

text \<open>
  How many of the three target positions of a draw hold a number equal to one of the two
  references.
\<close>

definition target_hits :: "int list \<Rightarrow> nat list \<Rightarrow> jsnum \<Rightarrow> jsnum \<Rightarrow> nat" where
  "target_hits nums targets ra rb =
     length (filter (\<lambda>k. js_eq (js_index2 nums targets k) ra \<or> js_eq (js_index2 nums targets k) rb)
               [0, 1, 2])"

subsection \<open>Draws of the data model\<close>

text \<open>A draw holds exactly 5 numbers, each a digit.\<close>

definition wf_draw :: "DrawData \<Rightarrow> bool" where
  "wf_draw d = (length (numbers d) = 5 \<and> list_all (\<lambda>n. 0 \<le> n \<and> n \<le> 9) (numbers d))"

text \<open>A formula definition over the 5 positions.\<close>

definition wf_form :: "formula \<Rightarrow> bool" where
  "wf_form f =
     (length (f_inputs f) = degree (f_type f) \<and> length (f_ops f) = degree (f_type f) - 1
      \<and> list_all (\<lambda>p. p < 5) (f_inputs f))"

subsection \<open>Aggregates of a history\<close>

text \<open>
  What the retained per-period records fold to: the number of records, the number of
  wins, the sum of the profits, and the last cumulative profit (0 before any record).
\<close>

definition history_totalDraws :: "PeriodStat list \<Rightarrow> int" where
  "history_totalDraws h = int (length h)"

definition history_winDraws :: "PeriodStat list \<Rightarrow> int" where
  "history_winDraws h = int (length (filter isWin h))"

definition history_totalProfit :: "PeriodStat list \<Rightarrow> int" where
  "history_totalProfit h = sum_list (map p_profit h)"

definition history_lastCumulative :: "PeriodStat list \<Rightarrow> int" where
  "history_lastCumulative h = last (0 # map cumulativeProfit h)"

subsection \<open>Survival after an overheat break\<close>

text \<open>
  The number of periods simulated over the outcomes \<open>ws\<close> from a running total \<open>t\<close>: each
  period adds its fixed amount, and the simulation stops as soon as the total is at most
  -1000, or when the outcomes are exhausted.
\<close>

fun sim_count :: "int \<Rightarrow> bool list \<Rightarrow> int" where
  "sim_count t [] = 0"
| "sim_count t (w # ws) =
     (if t + profit_of w \<le> - 1000 then 1 else 1 + sim_count (t + profit_of w) ws)"

text \<open>The length of the win streak that ends just before period \<open>i\<close>.\<close>

definition wins_before :: "bool list \<Rightarrow> nat \<Rightarrow> nat" where
  "wins_before ws i = length (takeWhile id (rev (take i ws)))"

text \<open>An overheat break: period \<open>i\<close> is a loss that follows a win streak of length at least 9.\<close>

definition is_break :: "bool list \<Rightarrow> nat \<Rightarrow> bool" where
  "is_break ws i = (\<not> ws ! i \<and> 9 \<le> wins_before ws i)"

text \<open>One entry per break, in order: the periods simulated from the period after it.\<close>

definition spec_survival :: "bool list \<Rightarrow> int list" where
  "spec_survival ws =
     map (\<lambda>i. sim_count 0 (drop (Suc i) ws)) (filter (is_break ws) [0 ..< length ws])"

section \<open>Auxiliary notions of the proofs\<close>

text \<open>
  The main loop of either path, over any list of indices, for an outcome function \<open>w\<close>
  and a year function \<open>y\<close>.
\<close>

definition track_run :: "(nat \<Rightarrow> bool) \<Rightarrow> (nat \<Rightarrow> jsstring) \<Rightarrow> pass_state \<Rightarrow> nat list \<Rightarrow> pass_state" where
  "track_run w y st ixs = foldl (\<lambda>st i. as_track i (w i) (y i) st) st ixs"

text \<open>The outcomes that an open streak counter stands for.\<close>

definition open_run :: "int \<Rightarrow> bool list" where
  "open_run cs = replicate (nat \<bar>cs\<bar>) (cs > 0)"

text \<open>
  What the histograms hold together with the runs still to come: preserved by every
  iteration and by the final flush.
\<close>

definition streak_meas :: "int \<Rightarrow> int \<Rightarrow> StreakCountsPair \<Rightarrow> bool list \<Rightarrow> int \<times> int \<times> int" where
  "streak_meas L cs sc xs =
     (hist_count (win sc) L + int (length (filter (\<lambda>r. r = (True, L)) (runs (open_run cs @ xs)))),
      hist_count (loss sc) L + int (length (filter (\<lambda>r. r = (False, L)) (runs (open_run cs @ xs)))),
      hist_total sc + int (length (runs (open_run cs @ xs))))"

text \<open>The final state of the main loop of either path, as a run of the common loop.\<close>

definition as_final :: "StrategyConfig \<Rightarrow> DrawData list \<Rightarrow> pass_state" where
  "as_final cfg draws =
     track_run (period_isWin cfg draws) (\<lambda>i. year_of (issue (draws ! i)))
       (init_state (length draws)) [lookback cfg ..< length draws]"

definition wk_final :: "DrawData list \<Rightarrow> formula \<Rightarrow> nat \<Rightarrow> nat \<Rightarrow> nat list \<Rightarrow> pass_state" where
  "wk_final draws form lb off targets =
     (let refBaseArray = wk_refBaseArray form lb draws;
          (refA_Array, refB_Array) = wk_refArrays refBaseArray off lb (length draws)
      in track_run (wk_isWin draws targets refA_Array refB_Array) (\<lambda>i. year_of (issue (draws ! i)))
           (init_state (length draws)) [lb ..< length draws])"


text \<open>The records that \<open>generateHistory\<close> appends over a list of indices, from a running sum.\<close>

fun gh_records :: "StrategyConfig \<Rightarrow> DrawData list \<Rightarrow> int \<Rightarrow> nat list \<Rightarrow> PeriodStat list" where
  "gh_records cfg draws c [] = []"
| "gh_records cfg draws c (i # ixs) =
     (let w = period_isWin cfg draws i;
          c' = c + (if w then WIN_PROFIT else LOSE_COST)
      in \<lparr> p_issue = issue (draws ! i), isWin = w,
           p_profit = (if w then WIN_PROFIT else LOSE_COST), cumulativeProfit = c' \<rparr>
         # gh_records cfg draws c' ixs)"

text \<open>
  The state of the survival loop after the first \<open>m\<close> evaluated periods: the counter, when
  positive, is the length of the current win streak, and the entries are those of the
  breaks so far.
\<close>

definition surv_inv :: "bool list \<Rightarrow> nat \<Rightarrow> int \<times> int list \<Rightarrow> bool" where
  "surv_inv ws m s =
     ((if fst s > 0 then fst s = int (wins_before ws m) else wins_before ws m = 0)
      \<and> snd s = map (\<lambda>i. sim_count 0 (drop (Suc i) ws)) (filter (is_break ws) [0 ..< m]))"

text \<open>All operator sequences of a length: what \<open>getOpPermutations\<close> returns from 1 on.\<close>

fun op_seqs :: "nat \<Rightarrow> OpType list list" where
  "op_seqs 0 = [[]]"
| "op_seqs (Suc n) = concat (map (\<lambda>o1. map (\<lambda>s. o1 # s) (op_seqs n)) ops_all)"

text \<open>The coordinates of a formula, and the id of a combination of coordinates.\<close>

definition fkey :: "formula \<Rightarrow> FormulaType \<times> nat list \<times> OpType list" where
  "fkey f = (f_type f, f_inputs f, f_ops f)"

definition combo_id :: "formula \<Rightarrow> nat list \<Rightarrow> nat \<Rightarrow> nat \<Rightarrow> string" where
  "combo_id f targets off lb = mk_id (f_type f) (f_inputs f) (f_ops f) targets off lb"

section \<open>Proof setup\<close>

text \<open>The equations of the simulation loops are recursive: they are unfolded by hand.\<close>

declare simLoop.simps [simp del]
declare wk_simLoop.simps [simp del]
declare num_toString.simps [simp del]

subsection \<open>Doubles\<close>

text \<open>
  The quotient \<open>2424 / 1920\<close> is \<open>1.2625\<close> on the reals; the double nearest to it lies below
  it, so \<open>toFixed(3)\<close> of the source prints \<open>1.262\<close>, and the result is the double nearest to
  \<open>1.262\<close>.
\<close>
lemma js_div_2424_1920: "js_div 2424 1920 < 2525 / 2000"
  by code_simp

lemma toFixed3_2424_1920: "toFixed3 (js_div 2424 1920) = to_double (1262 / 1000)"
  by code_simp

section \<open>The main loop\<close>

lemma wk_track_eq: "wk_track i w y st = as_track i w y st"
  by (simp add: wk_track_def as_track_def Let_def)

lemma wk_flush_eq: "wk_flush cs sc = flush cs sc"
  by (simp add: wk_flush_def flush_def)

lemma track_run_Nil: "track_run w y st [] = st" by (simp add: track_run_def)
lemma track_run_Cons: "track_run w y st (i # ixs) = track_run w y (as_track i (w i) (y i) st) ixs"
  by (simp add: track_run_def)
lemma track_run_snoc: "track_run w y st (ixs @ [i]) = as_track i (w i) (y i) (track_run w y st ixs)"
  by (simp add: track_run_def)

lemma as_pass_run:
  "as_pass cfg draws = track_run (period_isWin cfg draws) (\<lambda>i. year_of (issue (draws ! i)))
     (init_state (length draws)) [lookback cfg ..< length draws]"
  by (simp add: as_pass_def track_run_def as_step_def[abs_def])

lemma wk_pass_run:
  "wk_pass draws lb targets ra rb = track_run (wk_isWin draws targets ra rb) (\<lambda>i. year_of (issue (draws ! i)))
     (init_state (length draws)) [lb ..< length draws]"
  by (simp add: wk_pass_def track_run_def wk_step_def[abs_def] wk_track_eq)

lemma track_totalProfit:
  "acc_totalProfit (as_track i w y st) = acc_totalProfit st + profit_of w"
  by (simp add: as_track_def Let_def profit_of_def)

lemma track_winDraws:
  "acc_winDraws (as_track i w y st) = acc_winDraws st + (if w then 1 else 0)"
  by (simp add: as_track_def Let_def)




lemma run_profit_sum:
  "acc_totalProfit (track_run w y st ixs) = acc_totalProfit st + sum_list (map (\<lambda>i. profit_of (w i)) ixs)"
  by (induction ixs arbitrary: st) (simp_all add: track_run_Nil track_run_Cons track_totalProfit)

lemma profit_sum_count:
  "sum_list (map (\<lambda>i. profit_of (w i)) ixs) =
     int (length (filter w ixs)) * WIN_PROFIT + (int (length ixs) - int (length (filter w ixs))) * LOSE_COST"
  by (induction ixs) (simp_all add: profit_of_def algebra_simps)

lemma run_profit:
  "acc_totalProfit (track_run w y st ixs) =
     acc_totalProfit st + int (length (filter w ixs)) * WIN_PROFIT
       + (int (length ixs) - int (length (filter w ixs))) * LOSE_COST"
  by (simp add: run_profit_sum profit_sum_count)

lemma run_winDraws:
  "acc_winDraws (track_run w y st ixs) = acc_winDraws st + int (length (filter w ixs))"
  by (induction ixs arbitrary: st) (simp_all add: track_run_Nil track_run_Cons track_winDraws)

subsection \<open>Peak and drawdown\<close>

lemma track_peak:
  "acc_peakProfit (as_track i w y st) = max (acc_peakProfit st) (acc_totalProfit st + profit_of w)"
  by (simp add: as_track_def Let_def profit_of_def max_def)

lemma track_maxDrawdown:
  "acc_maxDrawdown (as_track i w y st) =
     max (acc_maxDrawdown st)
       (max (acc_peakProfit st) (acc_totalProfit st + profit_of w) - (acc_totalProfit st + profit_of w))"
  by (simp add: as_track_def Let_def profit_of_def max_def)

lemma cum_profits_snoc:
  "cum_profits (ws @ [w]) = cum_profits ws @ [sum_list (map profit_of ws) + profit_of w]"
  by (simp add: cum_profits_def)

lemma length_cum_profits: "length (cum_profits ws) = Suc (length ws)"
  by (simp add: cum_profits_def)

lemma cum_profits_ne: "cum_profits ws \<noteq> []"
  by (simp add: cum_profits_def)

lemma running_peak_snoc_old:
  "k \<le> length ws \<Longrightarrow> running_peak (ws @ [w]) k = running_peak ws k"
  by (simp add: running_peak_def cum_profits_snoc length_cum_profits)

lemma running_peak_last:
  "running_peak ws (length ws) = Max (set (cum_profits ws))"
  by (simp add: running_peak_def length_cum_profits)

lemma cum_profits_nth_old:
  "k \<le> length ws \<Longrightarrow> cum_profits (ws @ [w]) ! k = cum_profits ws ! k"
  by (simp add: cum_profits_snoc nth_append length_cum_profits)

lemma drawdown_at_snoc_old:
  "k \<le> length ws \<Longrightarrow> drawdown_at (ws @ [w]) k = drawdown_at ws k"
  by (simp add: drawdown_at_def running_peak_snoc_old cum_profits_nth_old)

lemma peak_snoc:
  "Max (set (cum_profits (ws @ [w]))) =
     max (Max (set (cum_profits ws))) (sum_list (map profit_of ws) + profit_of w)"
  using cum_profits_ne[of ws] by (simp add: cum_profits_snoc Max_insert max.commute)

lemma drawdown_at_new:
  "drawdown_at (ws @ [w]) (Suc (length ws)) =
     max (Max (set (cum_profits ws))) (sum_list (map profit_of ws) + profit_of w)
       - (sum_list (map profit_of ws) + profit_of w)"
proof -
  have "running_peak (ws @ [w]) (Suc (length ws)) = Max (set (cum_profits (ws @ [w])))"
    using running_peak_last[of "ws @ [w]"] by simp
  moreover have "cum_profits (ws @ [w]) ! Suc (length ws) = sum_list (map profit_of ws) + profit_of w"
    by (simp add: cum_profits_snoc nth_append length_cum_profits)
  ultimately show ?thesis by (simp add: drawdown_at_def peak_snoc)
qed

lemma spec_maxDrawdown_snoc:
  "spec_maxDrawdown (ws @ [w]) =
     max (spec_maxDrawdown ws)
       (max (Max (set (cum_profits ws))) (sum_list (map profit_of ws) + profit_of w)
          - (sum_list (map profit_of ws) + profit_of w))"
proof -
  have m: "map (drawdown_at (ws @ [w])) [0 ..< Suc (length ws)] = map (drawdown_at ws) [0 ..< Suc (length ws)]"
    by (rule map_cong) (auto simp: drawdown_at_snoc_old)
  have "map (drawdown_at (ws @ [w])) [0 ..< Suc (length (ws @ [w]))]
        = map (drawdown_at ws) [0 ..< Suc (length ws)] @ [drawdown_at (ws @ [w]) (Suc (length ws))]"
    using m by simp
  then show ?thesis
    unfolding spec_maxDrawdown_def
    by (simp add: drawdown_at_new Max_insert max.commute del: upt_Suc)
qed

lemma spec_maxDrawdown_Nil: "spec_maxDrawdown [] = 0"
  by (simp add: spec_maxDrawdown_def drawdown_at_def running_peak_def cum_profits_def)

lemma run_drawdown_inv:
  "acc_totalProfit st = 0 \<Longrightarrow> acc_peakProfit st = 0 \<Longrightarrow> acc_maxDrawdown st = 0 \<Longrightarrow>
   acc_totalProfit (track_run w y st ixs) = sum_list (map profit_of (map w ixs)) \<and>
   acc_peakProfit (track_run w y st ixs) = Max (set (cum_profits (map w ixs))) \<and>
   acc_maxDrawdown (track_run w y st ixs) = spec_maxDrawdown (map w ixs)"
proof (induction ixs rule: rev_induct)
  case Nil
  then show ?case by (simp add: track_run_Nil spec_maxDrawdown_Nil cum_profits_def)
next
  case (snoc i ixs)
  then show ?case
    by (simp add: track_run_snoc track_totalProfit track_peak track_maxDrawdown
        peak_snoc spec_maxDrawdown_snoc)
qed

lemma spec_maxDrawdown_nonneg: "0 \<le> spec_maxDrawdown ws"
proof -
  have "drawdown_at ws 0 = 0"
    by (simp add: drawdown_at_def running_peak_def cum_profits_def upt_rec)
  then have "0 \<in> set (map (drawdown_at ws) [0 ..< Suc (length ws)])"
    by (simp add: upt_rec[of 0] image_iff del: upt_Suc)
  then show ?thesis unfolding spec_maxDrawdown_def
    by (intro Max_ge) simp_all
qed

subsection \<open>Streak histograms\<close>

lemma track_currentStreak:
  "acc_currentStreak (as_track i w y st) =
     (if w then (if acc_currentStreak st > 0 then acc_currentStreak st + 1 else 1)
      else (if acc_currentStreak st < 0 then acc_currentStreak st - 1 else - 1))"
  by (simp add: as_track_def Let_def)

lemma track_streakCounts:
  "acc_streakCounts (as_track i w y st) =
     (if w then (if acc_currentStreak st < 0
                 then (acc_streakCounts st) \<lparr> loss := bump \<bar>acc_currentStreak st\<bar> (loss (acc_streakCounts st)) \<rparr>
                 else acc_streakCounts st)
      else (if acc_currentStreak st > 0
            then (acc_streakCounts st) \<lparr> win := bump (acc_currentStreak st) (win (acc_streakCounts st)) \<rparr>
            else acc_streakCounts st))"
  by (simp add: as_track_def Let_def)

lemma hist_count_bump: "hist_count (bump k h) L = hist_count h L + (if L = k then 1 else 0)"
  by (simp add: hist_count_def bump_def update_conv')

lemma sum_update_first:
  "sum_list (map snd (AList.update k ((case map_of h k of None \<Rightarrow> 0 | Some c \<Rightarrow> c) + 1) h))
     = sum_list (map snd h) + (1::int)"
  by (induction h) auto

lemma sum_bump: "sum_list (map snd (bump k h)) = sum_list (map snd h) + 1"
  by (simp add: bump_def sum_update_first)

lemma distinct_bump: "distinct (map fst h) \<Longrightarrow> distinct (map fst (bump k h))"
  by (simp add: bump_def distinct_update)

lemma runs_Nil_iff: "runs xs = [] \<longleftrightarrow> xs = []"
  by (cases xs) (auto split: list.splits)

lemma runs_hd: "xs \<noteq> [] \<Longrightarrow> fst (hd (runs xs)) = hd xs"
  by (cases xs) (auto split: list.splits)

lemma runs_Cons_diff:
  "xs = [] \<or> hd xs \<noteq> b \<Longrightarrow> runs (b # xs) = (b, 1) # runs xs"
proof (cases "runs xs")
  case Nil
  then show ?thesis by simp
next
  case (Cons r rs)
  assume a: "xs = [] \<or> hd xs \<noteq> b"
  from Cons have ne: "xs \<noteq> []" by (auto simp: runs_Nil_iff[symmetric])
  with a have "hd xs \<noteq> b" by simp
  with runs_hd[OF ne] Cons have "fst r \<noteq> b" by simp
  with Cons show ?thesis by (cases r) auto
qed

lemma runs_replicate_append:
  "xs = [] \<or> hd xs \<noteq> b \<Longrightarrow> runs (replicate (Suc n) b @ xs) = (b, int (Suc n)) # runs xs"
proof (induction n)
  case 0
  then show ?case using runs_Cons_diff[of xs b] by simp
next
  case (Suc n)
  have "runs (replicate (Suc (Suc n)) b @ xs) = runs (b # (replicate (Suc n) b @ xs))" by simp
  also have "\<dots> = (b, int (Suc n) + 1) # runs xs"
    using Suc by (simp del: replicate.simps)
  finally show ?case by simp
qed

lemma open_run_0: "open_run 0 = []" by (simp add: open_run_def)

lemma nat_abs_Suc: "cs \<noteq> 0 \<Longrightarrow> nat \<bar>cs\<bar> = Suc (nat (\<bar>cs\<bar> - 1))"
  by arith

lemma open_run_Suc: "cs \<noteq> 0 \<Longrightarrow> open_run cs = replicate (Suc (nat (\<bar>cs\<bar> - 1))) (cs > 0)"
  using nat_abs_Suc[of cs] by (simp add: open_run_def del: replicate.simps)

lemma open_run_win: "cs > 0 \<Longrightarrow> open_run (cs + 1) = open_run cs @ [True]"
proof -
  assume "cs > 0"
  then have "nat \<bar>cs + 1\<bar> = Suc (nat \<bar>cs\<bar>)" by arith
  with \<open>cs > 0\<close> show ?thesis by (simp add: open_run_def replicate_append_same)
qed

lemma open_run_loss: "cs < 0 \<Longrightarrow> open_run (cs - 1) = open_run cs @ [False]"
proof -
  assume "cs < 0"
  then have "nat \<bar>cs - 1\<bar> = Suc (nat \<bar>cs\<bar>)" by arith
  with \<open>cs < 0\<close> show ?thesis by (simp add: open_run_def replicate_append_same)
qed

lemma open_run_1: "open_run 1 = [True]" "open_run (- 1) = [False]"
  by (simp_all add: open_run_def)

lemma runs_open_closed:
  "cs \<noteq> 0 \<Longrightarrow> xs = [] \<or> hd xs \<noteq> (cs > 0) \<Longrightarrow> runs (open_run cs @ xs) = (cs > 0, \<bar>cs\<bar>) # runs xs"
proof -
  assume a: "cs \<noteq> 0" and b: "xs = [] \<or> hd xs \<noteq> (cs > 0)"
  have "int (Suc (nat (\<bar>cs\<bar> - 1))) = \<bar>cs\<bar>" using a by arith
  with runs_replicate_append[OF b, of "nat (\<bar>cs\<bar> - 1)"] open_run_Suc[OF a]
  show ?thesis by simp
qed


lemma streak_meas_flush:
  "streak_meas L 0 (flush cs sc) [] = streak_meas L cs sc []"
proof (cases "cs = 0")
  case True
  then show ?thesis by (simp add: flush_def)
next
  case False
  then have "runs (open_run cs @ []) = [(cs > 0, \<bar>cs\<bar>)]"
    using runs_open_closed[of cs "[]"] by simp
  with False show ?thesis
    by (auto simp: streak_meas_def flush_def open_run_0 hist_count_bump hist_total_def sum_bump)
qed

lemma streak_meas_step:
  "streak_meas L (acc_currentStreak (as_track i w y st)) (acc_streakCounts (as_track i w y st)) xs
     = streak_meas L (acc_currentStreak st) (acc_streakCounts st) (w # xs)"
proof -
  let ?cs = "acc_currentStreak st"
  consider (wp) "w" "?cs > 0" | (wn) "w" "?cs < 0" | (wz) "w" "?cs = 0"
    | (lp) "\<not> w" "?cs > 0" | (ln) "\<not> w" "?cs < 0" | (lz) "\<not> w" "?cs = 0"
    by fastforce
  then show ?thesis
  proof cases
    case wp
    then show ?thesis
      by (simp add: track_currentStreak track_streakCounts streak_meas_def open_run_win)
  next
    case wn
    then have "runs (open_run ?cs @ True # xs) = (False, \<bar>?cs\<bar>) # runs (True # xs)"
      using runs_open_closed[of ?cs "True # xs"] by simp
    with wn show ?thesis
      by (simp add: track_currentStreak track_streakCounts streak_meas_def open_run_1
          hist_count_bump hist_total_def sum_bump)
  next
    case wz
    then show ?thesis
      by (simp add: track_currentStreak track_streakCounts streak_meas_def open_run_1 open_run_0)
  next
    case lp
    then have "runs (open_run ?cs @ False # xs) = (True, \<bar>?cs\<bar>) # runs (False # xs)"
      using runs_open_closed[of ?cs "False # xs"] by simp
    with lp show ?thesis
      by (simp add: track_currentStreak track_streakCounts streak_meas_def open_run_1
          hist_count_bump hist_total_def sum_bump)
  next
    case ln
    then show ?thesis
      by (simp add: track_currentStreak track_streakCounts streak_meas_def open_run_loss)
  next
    case lz
    then show ?thesis
      by (simp add: track_currentStreak track_streakCounts streak_meas_def open_run_1 open_run_0)
  qed
qed

lemma run_streak_meas:
  "streak_meas L (acc_currentStreak (track_run w y st ixs)) (acc_streakCounts (track_run w y st ixs)) []
     = streak_meas L (acc_currentStreak st) (acc_streakCounts st) (map w ixs)"
  by (induction ixs arbitrary: st) (simp_all add: track_run_Nil track_run_Cons streak_meas_step)

lemma run_streak_final:
  fixes w y st ixs
  assumes "acc_currentStreak st = 0" "acc_streakCounts st = \<lparr> win = [], loss = [] \<rparr>"
  defines "fin \<equiv> flush (acc_currentStreak (track_run w y st ixs)) (acc_streakCounts (track_run w y st ixs))"
  shows "hist_count (win fin) L = run_count True L (map w ixs)"
    and "hist_count (loss fin) L = run_count False L (map w ixs)"
    and "hist_total fin = int (length (runs (map w ixs)))"
proof -
  have "streak_meas L 0 fin [] = streak_meas L 0 \<lparr> win = [], loss = [] \<rparr> (map w ixs)"
    unfolding fin_def streak_meas_flush run_streak_meas assms(1,2) ..
  then show "hist_count (win fin) L = run_count True L (map w ixs)"
    and "hist_count (loss fin) L = run_count False L (map w ixs)"
    and "hist_total fin = int (length (runs (map w ixs)))"
    by (simp_all add: streak_meas_def open_run_0 run_count_def hist_count_def hist_total_def)
qed

lemma track_distinct:
  "distinct (map fst (win (acc_streakCounts st))) \<and> distinct (map fst (loss (acc_streakCounts st))) \<Longrightarrow>
   distinct (map fst (win (acc_streakCounts (as_track i w y st)))) \<and>
   distinct (map fst (loss (acc_streakCounts (as_track i w y st))))"
  by (simp add: track_streakCounts distinct_bump)

lemma run_distinct:
  "distinct (map fst (win (acc_streakCounts st))) \<and> distinct (map fst (loss (acc_streakCounts st))) \<Longrightarrow>
   distinct (map fst (win (acc_streakCounts (track_run w y st ixs)))) \<and>
   distinct (map fst (loss (acc_streakCounts (track_run w y st ixs))))"
  by (induction ixs arbitrary: st) (simp_all add: track_run_Nil track_run_Cons track_distinct del: distinct_map)

lemma flush_distinct:
  "distinct (map fst (win sc)) \<and> distinct (map fst (loss sc)) \<Longrightarrow>
   distinct (map fst (win (flush cs sc))) \<and> distinct (map fst (loss (flush cs sc)))"
  by (simp add: flush_def distinct_bump)

section \<open>Properties of the results\<close>

lemma init_fields:
  "acc_totalProfit (init_state n) = 0" "acc_winDraws (init_state n) = 0"
  "acc_currentStreak (init_state n) = 0" "acc_maxWinStreak (init_state n) = 0"
  "acc_maxLoseStreak (init_state n) = 0" "acc_peakProfit (init_state n) = 0"
  "acc_maxDrawdown (init_state n) = 0"
  "acc_streakCounts (init_state n) = \<lparr> win = [], loss = [] \<rparr>"
  "acc_annualMap (init_state n) = []"
  "acc_winHistory (init_state n) = replicate n False"
  by (simp_all add: init_state_def)

lemma as_fields:
  "totalProfit (analyzeStrategy lc cfg draws) = acc_totalProfit (as_final cfg draws)"
  "winDraws (analyzeStrategy lc cfg draws) = acc_winDraws (as_final cfg draws)"
  "totalDraws (analyzeStrategy lc cfg draws) = int (length (as_outcomes cfg draws))"
  "maxDrawdown (analyzeStrategy lc cfg draws) = acc_maxDrawdown (as_final cfg draws)"
  "currentStreak (analyzeStrategy lc cfg draws) = acc_currentStreak (as_final cfg draws)"
  "streakCounts (analyzeStrategy lc cfg draws) =
     flush (acc_currentStreak (as_final cfg draws)) (acc_streakCounts (as_final cfg draws))"
  by (simp_all add: analyzeStrategy_def Let_def as_pass_run as_final_def as_outcomes_def)

lemma wk_fields:
  "totalProfit (worker_entry draws form lb off targets) = acc_totalProfit (wk_final draws form lb off targets)"
  "winDraws (worker_entry draws form lb off targets) = acc_winDraws (wk_final draws form lb off targets)"
  "totalDraws (worker_entry draws form lb off targets) = int (length (wk_outcomes draws form lb off targets))"
  "maxDrawdown (worker_entry draws form lb off targets) = acc_maxDrawdown (wk_final draws form lb off targets)"
  "currentStreak (worker_entry draws form lb off targets) = acc_currentStreak (wk_final draws form lb off targets)"
  "streakCounts (worker_entry draws form lb off targets) =
     flush (acc_currentStreak (wk_final draws form lb off targets)) (acc_streakCounts (wk_final draws form lb off targets))"
  by (simp_all add: worker_entry_def wk_entry_def Let_def split_beta wk_pass_run wk_final_def
      wk_outcomes_def wk_flush_eq)

lemma as_final_run:
  "\<exists>w y. as_final cfg draws = track_run w y (init_state (length draws)) [lookback cfg ..< length draws]
       \<and> as_outcomes cfg draws = map w [lookback cfg ..< length draws]"
  unfolding as_final_def as_outcomes_def by blast

lemma wk_final_run:
  "\<exists>w y. wk_final draws form lb off targets = track_run w y (init_state (length draws)) [lb ..< length draws]
       \<and> wk_outcomes draws form lb off targets = map w [lb ..< length draws]"
  unfolding wk_final_def wk_outcomes_def Let_def split_beta by blast

lemma run_init_profit:
  "acc_totalProfit (track_run w y (init_state n) ixs) = sum_list (map profit_of (map w ixs))"
  by (simp add: run_profit_sum init_fields comp_def)

lemma run_init_winDraws:
  "acc_winDraws (track_run w y (init_state n) ixs) = int (length (filter id (map w ixs)))"
  by (simp add: run_winDraws init_fields filter_map comp_def)

lemma profit_identity:
  "sum_list (map profit_of ws) =
     int (length (filter id ws)) * WIN_PROFIT + (int (length ws) - int (length (filter id ws))) * LOSE_COST"
  by (induction ws) (simp_all add: profit_of_def algebra_simps)

lemma as_profit:
  "totalProfit (analyzeStrategy lc cfg draws) = sum_list (map profit_of (as_outcomes cfg draws))"
  "winDraws (analyzeStrategy lc cfg draws) = int (length (filter id (as_outcomes cfg draws)))"
  using as_final_run[of cfg draws] by (auto simp: as_fields run_init_profit run_init_winDraws)

lemma wk_profit:
  "totalProfit (worker_entry draws form lb off targets) = sum_list (map profit_of (wk_outcomes draws form lb off targets))"
  "winDraws (worker_entry draws form lb off targets) = int (length (filter id (wk_outcomes draws form lb off targets)))"
  using wk_final_run[of draws form lb off targets] by (auto simp: wk_fields run_init_profit run_init_winDraws)

text \<open>
  C1. For every configuration and every draw sequence, the returned \<open>totalProfit\<close> is
  \<open>winDraws * WIN_PROFIT + (totalDraws - winDraws) * LOSE_COST\<close>, with \<open>WIN_PROFIT = 606\<close> and
  \<open>LOSE_COST = -384\<close>: it is the sum, over the evaluated periods, of one of the two fixed
  amounts per period. This holds for \<open>analyzeStrategy\<close> and for every entry of the worker.
\<close>

theorem C1_profit_identity:
  "totalProfit (analyzeStrategy lc cfg draws) =
     winDraws (analyzeStrategy lc cfg draws) * WIN_PROFIT
     + (totalDraws (analyzeStrategy lc cfg draws) - winDraws (analyzeStrategy lc cfg draws)) * LOSE_COST
   \<and> totalProfit (worker_entry draws form lb off targets) =
     winDraws (worker_entry draws form lb off targets) * WIN_PROFIT
     + (totalDraws (worker_entry draws form lb off targets)
        - winDraws (worker_entry draws form lb off targets)) * LOSE_COST
   \<and> totalProfit (analyzeStrategy lc cfg draws) = sum_list (map profit_of (as_outcomes cfg draws))
   \<and> totalProfit (worker_entry draws form lb off targets)
       = sum_list (map profit_of (wk_outcomes draws form lb off targets))
   \<and> WIN_PROFIT = 606 \<and> LOSE_COST = - 384"
  by (simp add: as_profit wk_profit as_fields(3) wk_fields(3) profit_identity)
     (simp add: WIN_PROFIT_def LOSE_COST_def)

lemma run_init_drawdown:
  "acc_maxDrawdown (track_run w y (init_state n) ixs) = spec_maxDrawdown (map w ixs)"
  using run_drawdown_inv[of "init_state n" w y ixs] by (simp add: init_fields)

text \<open>
  C8. For every configuration and every draw sequence, \<open>maxDrawdown\<close> is the maximum over
  the pass of the running peak of the cumulative profit minus the current cumulative
  profit, where the cumulative profit starts at 0 before the first period; hence
  \<open>maxDrawdown\<close> is never negative.
\<close>

theorem C8_maxDrawdown:
  "maxDrawdown (analyzeStrategy lc cfg draws) = spec_maxDrawdown (as_outcomes cfg draws)
   \<and> maxDrawdown (worker_entry draws form lb off targets)
       = spec_maxDrawdown (wk_outcomes draws form lb off targets)
   \<and> 0 \<le> maxDrawdown (analyzeStrategy lc cfg draws)
   \<and> 0 \<le> maxDrawdown (worker_entry draws form lb off targets)"
proof -
  have a: "maxDrawdown (analyzeStrategy lc cfg draws) = spec_maxDrawdown (as_outcomes cfg draws)"
    using as_final_run[of cfg draws] by (auto simp: as_fields run_init_drawdown)
  have b: "maxDrawdown (worker_entry draws form lb off targets)
       = spec_maxDrawdown (wk_outcomes draws form lb off targets)"
    using wk_final_run[of draws form lb off targets] by (auto simp: wk_fields run_init_drawdown)
  show ?thesis by (simp add: a b spec_maxDrawdown_nonneg)
qed

lemma run_init_streaks:
  fixes w y n ixs
  defines "fin \<equiv> flush (acc_currentStreak (track_run w y (init_state n) ixs))
                       (acc_streakCounts (track_run w y (init_state n) ixs))"
  shows "hist_total fin = int (length (runs (map w ixs)))
    \<and> (\<forall>L. hist_count (win fin) L = run_count True L (map w ixs)
          \<and> hist_count (loss fin) L = run_count False L (map w ixs))
    \<and> distinct (map fst (win fin)) \<and> distinct (map fst (loss fin))"
proof -
  have d: "distinct (map fst (win fin)) \<and> distinct (map fst (loss fin))"
    unfolding fin_def
    by (intro flush_distinct run_distinct) (simp add: init_fields)
  show ?thesis
    using d run_streak_final[of "init_state n" w y ixs]
    by (simp add: fin_def init_fields)
qed

text \<open>
  C5. For every configuration and every draw sequence, the sum of all buckets of the win
  and loss histograms (after the flush of the open streak) is the number of maximal runs
  of equal outcomes of the evaluated periods, and the bucket of length \<open>L\<close> of either
  histogram holds the number of maximal runs of that kind and that length: every run is
  counted once, under its length. The keys of a histogram are distinct.
\<close>

theorem C5_streak_histograms:
  "hist_total (streakCounts (analyzeStrategy lc cfg draws)) = int (length (runs (as_outcomes cfg draws)))
   \<and> (\<forall>L. hist_count (win (streakCounts (analyzeStrategy lc cfg draws))) L
             = run_count True L (as_outcomes cfg draws)
          \<and> hist_count (loss (streakCounts (analyzeStrategy lc cfg draws))) L
             = run_count False L (as_outcomes cfg draws))
   \<and> distinct (map fst (win (streakCounts (analyzeStrategy lc cfg draws))))
   \<and> distinct (map fst (loss (streakCounts (analyzeStrategy lc cfg draws))))
   \<and> hist_total (streakCounts (worker_entry draws form lb off targets))
       = int (length (runs (wk_outcomes draws form lb off targets)))
   \<and> (\<forall>L. hist_count (win (streakCounts (worker_entry draws form lb off targets))) L
             = run_count True L (wk_outcomes draws form lb off targets)
          \<and> hist_count (loss (streakCounts (worker_entry draws form lb off targets))) L
             = run_count False L (wk_outcomes draws form lb off targets))
   \<and> distinct (map fst (win (streakCounts (worker_entry draws form lb off targets))))
   \<and> distinct (map fst (loss (streakCounts (worker_entry draws form lb off targets))))"
proof -
  obtain w y where a: "as_final cfg draws = track_run w y (init_state (length draws)) [lookback cfg ..< length draws]"
       "as_outcomes cfg draws = map w [lookback cfg ..< length draws]"
    using as_final_run[of cfg draws] by blast
  obtain w' y' where b: "wk_final draws form lb off targets = track_run w' y' (init_state (length draws)) [lb ..< length draws]"
       "wk_outcomes draws form lb off targets = map w' [lb ..< length draws]"
    using wk_final_run[of draws form lb off targets] by blast
  show ?thesis
    using run_init_streaks[of w y "length draws" "[lookback cfg ..< length draws]"]
          run_init_streaks[of w' y' "length draws" "[lb ..< length draws]"]
    by (simp only: as_fields wk_fields a b) simp
qed

subsection \<open>The empty pass and the pass without a loss\<close>

lemma formulas_Some: "\<exists>fs. formulas = Some fs"
  by (simp add: formulas_def eval_nat_numeral)

lemma runWorker_Some: "\<exists>rs. runWorker draws = Some rs"
proof -
  obtain fs where fs: "formulas = Some fs" using formulas_Some by blast
  show ?thesis unfolding runWorker_def fs by simp
qed

lemma as_zero:
  assumes "length draws \<le> lookback cfg"
  shows "analyzeStrategy lc cfg draws = zero_stats cfg"
  using assms
  by (simp add: analyzeStrategy_def as_pass_def init_state_def flush_def survival_def
      mk_survivalStats_def as_annualStats_def sort_by_def zero_stats_def OVERHEAT_THRESHOLD_def
      Let_def)

lemma wk_refArrays_empty:
  "n \<le> lb \<Longrightarrow> wk_refArrays arr off lb n = (replicate n 0, replicate n 0)"
  by (simp add: wk_refArrays_def)

lemma wk_zero:
  assumes "length draws \<le> lb"
  shows "worker_entry draws form lb off targets
          = zero_stats (config (worker_entry draws form lb off targets))"
  using assms
  by (simp add: worker_entry_def wk_entry_def wk_refArrays_empty wk_pass_def init_state_def
      wk_flush_def wk_survival_def mk_survivalStats_def wk_annualStats_def zero_stats_def Let_def)

text \<open>
  C7. When the draws are no longer than the lookback (\<open>N - lookback \<le> 0\<close>), either path
  returns the zero-period result: \<open>totalDraws\<close>, \<open>winDraws\<close>, \<open>winRate\<close>, \<open>totalProfit\<close> and
  the other numbers are 0 and the streak, annual and survival data are empty; the batch
  run returns a result list.
\<close>

theorem C7_empty_pass:
  assumes "int (length draws) - int (lookback cfg) \<le> 0"
  shows "analyzeStrategy lc cfg draws = zero_stats cfg
    \<and> worker_entry draws form (lookback cfg) off targets
        = zero_stats (config (worker_entry draws form (lookback cfg) off targets))
    \<and> (\<exists>rs. runWorker draws = Some rs)"
  using assms as_zero[of draws cfg] wk_zero[of draws "lookback cfg" form off targets] runWorker_Some[of draws]
  by simp

theorem C7_empty_pass_witness:
  "int (length [draw_2024001]) - int (lookback cfg_pos0) \<le> 0
   \<and> totalDraws (analyzeStrategy code_unit_compare cfg_pos0 [draw_2024001]) = 0
   \<and> winRate (analyzeStrategy code_unit_compare cfg_pos0 [draw_2024001]) = 0
   \<and> totalDraws (worker_entry [draw_2024001] form_pos0 (lookback cfg_pos0) 0 [0, 1, 2]) = 0
   \<and> winRate (worker_entry [draw_2024001] form_pos0 (lookback cfg_pos0) 0 [0, 1, 2]) = 0"
proof -
  have h: "int (length [draw_2024001]) - int (lookback cfg_pos0) \<le> 0"
    by (simp add: cfg_pos0_def)
  note th = C7_empty_pass[OF h, of code_unit_compare form_pos0 0 "[0, 1, 2]"]
  note a = th[THEN conjunct1]
  note b = th[THEN conjunct2, THEN conjunct1]
  have c: "totalDraws (worker_entry [draw_2024001] form_pos0 (lookback cfg_pos0) 0 [0, 1, 2]) = 0"
    by (subst b) (simp add: zero_stats_def)
  have d: "winRate (worker_entry [draw_2024001] form_pos0 (lookback cfg_pos0) 0 [0, 1, 2]) = 0"
    by (subst b) (simp add: zero_stats_def)
  show ?thesis
    using h c d by (simp add: a zero_stats_def)
qed

text \<open>
  C10. When no evaluated period is a loss (\<open>totalDraws - winDraws = 0\<close>), the \<open>profitRatio\<close>
  of either path is the gross profit \<open>winDraws * WIN_PROFIT\<close>; with no evaluated period it
  is 0.
\<close>

theorem C10_profitRatio_no_loss:
  assumes "s = analyzeStrategy lc cfg draws \<or> s = worker_entry draws form lb off targets"
    and "totalDraws s - winDraws s = 0"
  shows "profitRatio s = of_int (winDraws s * WIN_PROFIT)
    \<and> profitRatio s = of_int (winDraws s) * 606
    \<and> (if totalDraws s = 0 then profitRatio s = 0 else profitRatio s = 606 * of_int (totalDraws s))"
proof -
  have w: "winDraws s = totalDraws s" using assms(2) by simp
  have "profitRatio s = of_int (winDraws s * WIN_PROFIT)"
    using assms
    by (auto simp: analyzeStrategy_def worker_entry_def wk_entry_def Let_def split_beta)
  then show ?thesis using w by (simp add: WIN_PROFIT_def)
qed

theorem C10_profitRatio_no_loss_witness:
  "totalDraws (analyzeStrategy code_unit_compare cfg_pos0 [draw_2024001, draw_2024002])
     - winDraws (analyzeStrategy code_unit_compare cfg_pos0 [draw_2024001, draw_2024002]) = 0
   \<and> winDraws (analyzeStrategy code_unit_compare cfg_pos0 [draw_2024001, draw_2024002]) = 1
   \<and> profitRatio (analyzeStrategy code_unit_compare cfg_pos0 [draw_2024001, draw_2024002]) = 606"
proof -
  have w: "winDraws (analyzeStrategy code_unit_compare cfg_pos0 [draw_2024001, draw_2024002]) = 1"
    by code_simp
  have t: "totalDraws (analyzeStrategy code_unit_compare cfg_pos0 [draw_2024001, draw_2024002]) = 1"
    by code_simp
  have h: "totalDraws (analyzeStrategy code_unit_compare cfg_pos0 [draw_2024001, draw_2024002])
     - winDraws (analyzeStrategy code_unit_compare cfg_pos0 [draw_2024001, draw_2024002]) = 0"
    by (simp add: w t)
  show ?thesis
    using h w C10_profitRatio_no_loss[OF disjI1[OF refl] h]
    by simp
qed

subsection \<open>The reference calculation\<close>

lemma wk_ops_loop_eq: "wk_ops_loop nums idx ops k t = ops_loop nums idx ops k t"
  by (induction ops arbitrary: k t) (auto split: OpType.splits)

lemma wk_sum_eq:
  "wk_sum form nums = formula_sum (f_type form) (f_inputs form) (f_ops form) nums"
  by (cases "f_type form") (simp_all add: wk_sum_def formula_sum_def wk_ops_loop_eq Let_def)

lemma js_index2_Some:
  "k < length idx \<Longrightarrow> idx ! k < length nums \<Longrightarrow> js_index2 nums idx k = Some (nums ! (idx ! k))"
  by (simp add: js_index2_def js_index_def)

lemma ops_loop_value:
  "length ops + k + 1 \<le> length idx \<Longrightarrow> list_all (\<lambda>p. p < length nums) idx \<Longrightarrow>
   ops_loop nums idx ops k (Some t)
     = Some (foldl (\<lambda>acc (op, p). apply_op op acc (nums ! p)) t (zip ops (drop (k + 1) idx)))"
proof (induction ops arbitrary: k t)
  case Nil
  then show ?case by simp
next
  case (Cons op ops)
  have k: "k + 1 < length idx" using Cons.prems(1) by simp
  then have r: "idx ! (k + 1) < length nums"
    using Cons.prems(2) by (simp add: list_all_length)
  have d: "drop (k + 1) idx = idx ! (k + 1) # drop (k + 1 + 1) idx"
    using k by (simp add: Cons_nth_drop_Suc)
  have "ops_loop nums idx (op # ops) k (Some t)
        = ops_loop nums idx ops (k + 1) (Some (apply_op op t (nums ! (idx ! (k + 1)))))"
    using js_index2_Some[OF k r] by (cases op) simp_all
  also have "\<dots> = Some (foldl (\<lambda>acc (op, p). apply_op op acc (nums ! p))
        (apply_op op t (nums ! (idx ! (k + 1)))) (zip ops (drop (k + 1 + 1) idx)))"
    using Cons.prems by (intro Cons.IH) simp_all
  finally show ?case by (subst d) simp
qed

lemma ternary_apply: "ternary_op (Some op) (Some a) (Some b) = Some (apply_op op a b)"
  by (cases op) simp_all

lemma formula_sum_value:
  assumes "wf_formula ty inputs ops nums"
  shows "formula_sum ty inputs ops nums = Some (spec_formula_value inputs ops nums)"
proof -
  from assms have len: "length inputs = degree ty" "length ops = degree ty - 1"
    and rng: "list_all (\<lambda>p. p < length nums) inputs"
    by (simp_all add: wf_formula_def)
  have ne: "inputs \<noteq> []" using len(1) by (cases ty) auto
  then have h0: "js_index2 nums inputs 0 = Some (nums ! hd inputs)"
    using rng by (cases inputs) (simp_all add: js_index2_def js_index_def)
  have loop: "ops_loop nums inputs ops 0 (js_index2 nums inputs 0)
                = Some (spec_formula_value inputs ops nums)"
    if "length ops + 1 \<le> length inputs"
    using ops_loop_value[of ops 0 inputs nums "nums ! hd inputs"] that rng ne
    by (simp add: h0 spec_formula_value_def drop_Suc)
  show ?thesis
  proof (cases ty)
    case ONE_POS
    with len h0 show ?thesis by (simp add: formula_sum_def spec_formula_value_def)
  next
    case TWO_POS
    with len obtain a b op where i: "inputs = [a, b]" "ops = [op]"
      by (auto simp: length_Suc_conv eval_nat_numeral)
    with rng TWO_POS show ?thesis
      by (simp add: formula_sum_def spec_formula_value_def js_index2_def js_index_def ternary_apply)
  next
    case THREE_POS
    with len obtain a b c op1 op2 where i: "inputs = [a, b, c]" "ops = [op1, op2]"
      by (auto simp: length_Suc_conv eval_nat_numeral)
    with rng THREE_POS show ?thesis
      by (simp add: formula_sum_def spec_formula_value_def js_index2_def js_index_def ternary_apply)
  next
    case FOUR_POS
    with len loop show ?thesis by (simp add: formula_sum_def)
  next
    case FIVE_POS
    with len loop show ?thesis by (simp add: formula_sum_def)
  qed
qed

lemma getReferenceBase_value:
  assumes "wf_formula (ftype cfg) (inputIndices cfg) (operators cfg) nums"
  shows "getReferenceBase nums cfg
     = Some ((spec_base (inputIndices cfg) (operators cfg) nums + int (offset cfg)) mod 10)"
  by (simp add: getReferenceBase_def formula_sum_value[OF assms] spec_base_def mod_add_left_eq)

lemma wk_base_value:
  assumes "wf_formula (f_type form) (f_inputs form) (f_ops form) nums"
  shows "wk_base form nums = spec_base (f_inputs form) (f_ops form) nums"
  by (simp add: wk_base_def wk_sum_eq formula_sum_value[OF assms] spec_base_def)

lemma fold_update_length:
  "length (foldl (\<lambda>arr i. arr[i := f i]) arr ixs) = length arr"
  by (induction ixs arbitrary: arr) simp_all

lemma fold_update_nth:
  "j < length arr \<Longrightarrow>
   foldl (\<lambda>arr i. arr[i := f i]) arr ixs ! j = (if j \<in> set ixs then f j else arr ! j)"
proof (induction ixs rule: rev_induct)
  case Nil
  then show ?case by simp
next
  case (snoc x xs)
  show ?case
  proof (cases "x = j")
    case True
    with snoc.prems show ?thesis by (simp add: fold_update_length)
  next
    case False
    with snoc show ?thesis by simp
  qed
qed

lemma fold_update_pair:
  "foldl (\<lambda>(a, b) i. (a[i := f i], b[i := g i])) (a0, b0) ixs
     = (foldl (\<lambda>arr i. arr[i := f i]) a0 ixs, foldl (\<lambda>arr i. arr[i := g i]) b0 ixs)"
  by (induction ixs arbitrary: a0 b0) simp_all

lemma wk_refBaseArray_nth:
  "lb \<le> i \<Longrightarrow> i < length draws \<Longrightarrow>
   wk_refBaseArray form lb draws ! i = wk_base form (numbers (draws ! (i - lb)))"
  by (simp add: wk_refBaseArray_def fold_update_nth)

lemma wk_refArrays_eq:
  "wk_refArrays base off lb n =
     (foldl (\<lambda>arr i. arr[i := (base ! i + int off) mod 10]) (replicate n 0) [lb ..< n],
      foldl (\<lambda>arr i. arr[i := ((base ! i + int off) mod 10 + 5) mod 10]) (replicate n 0) [lb ..< n])"
  unfolding wk_refArrays_def Let_def by (rule fold_update_pair)

lemma wk_refA_nth:
  "lb \<le> i \<Longrightarrow> i < length draws \<Longrightarrow>
   wk_refA draws form lb off i = (wk_refBaseArray form lb draws ! i + int off) mod 10"
  by (simp add: wk_refA_def wk_refArrays_eq fold_update_nth)

lemma wk_refB_nth:
  "lb \<le> i \<Longrightarrow> i < length draws \<Longrightarrow>
   wk_refB draws form lb off i = (wk_refA draws form lb off i + 5) mod 10"
  by (simp add: wk_refB_def wk_refA_def wk_refArrays_eq fold_update_nth)

lemma five_apart: "0 \<le> a \<Longrightarrow> a < 10 \<Longrightarrow> ((a + 5) mod 10 - (a::int)) mod 10 = 5 \<and> (a + 5) mod 10 \<noteq> a"
  by presburger

lemma ref_agree:
  assumes "lookback cfg \<le> i" and "i < length draws"
    and "wf_formula (ftype cfg) (inputIndices cfg) (operators cfg) (numbers (draws ! (i - lookback cfg)))"
  shows "as_refA cfg draws i = Some (wk_refA draws (formula_of cfg nm) (lookback cfg) (offset cfg) i)"
    and "as_refB cfg draws i = Some (wk_refB draws (formula_of cfg nm) (lookback cfg) (offset cfg) i)"
proof -
  let ?form = "formula_of cfg nm"
  have wf': "wf_formula (f_type ?form) (f_inputs ?form) (f_ops ?form) (numbers (draws ! (i - lookback cfg)))"
    using assms(3) by (simp add: formula_of_def)
  have base: "wk_refBaseArray ?form (lookback cfg) draws ! i
           = spec_base (inputIndices cfg) (operators cfg) (numbers (draws ! (i - lookback cfg)))"
    using wk_refBaseArray_nth[OF assms(1,2)] wk_base_value[OF wf'] by (simp add: formula_of_def)
  show a: "as_refA cfg draws i = Some (wk_refA draws ?form (lookback cfg) (offset cfg) i)"
    by (simp add: as_refA_def getReferenceBase_value[OF assms(3)]
        wk_refA_nth[OF assms(1,2)] base)
  show "as_refB cfg draws i = Some (wk_refB draws ?form (lookback cfg) (offset cfg) i)"
    by (simp add: as_refB_def a wk_refB_nth[OF assms(1,2)])
qed

text \<open>
  C4. For every formula of the data model, every lookback and offset and every draw index
  \<open>i \<ge> lookback\<close>: the base digit is the absolute value of the formula's left-to-right
  value on the numbers of draw \<open>i - lookback\<close>, modulo 10; \<open>refA[i] = (base[i] + offset) mod 10\<close>
  and \<open>refB[i] = (refA[i] + 5) mod 10\<close>, in the worker's arrays and in \<open>analyzeStrategy\<close>
  alike; the two references differ by 5 modulo 10.
\<close>

theorem C4_references:
  assumes "lookback cfg \<le> i" and "i < length draws"
    and "wf_formula (ftype cfg) (inputIndices cfg) (operators cfg) (numbers (draws ! (i - lookback cfg)))"
  shows "wk_refBaseArray (formula_of cfg nm) (lookback cfg) draws ! i
           = spec_base (inputIndices cfg) (operators cfg) (numbers (draws ! (i - lookback cfg)))
    \<and> wk_refA draws (formula_of cfg nm) (lookback cfg) (offset cfg) i
           = (wk_refBaseArray (formula_of cfg nm) (lookback cfg) draws ! i + int (offset cfg)) mod 10
    \<and> wk_refB draws (formula_of cfg nm) (lookback cfg) (offset cfg) i
           = (wk_refA draws (formula_of cfg nm) (lookback cfg) (offset cfg) i + 5) mod 10
    \<and> as_refA cfg draws i = Some (wk_refA draws (formula_of cfg nm) (lookback cfg) (offset cfg) i)
    \<and> as_refB cfg draws i = Some (wk_refB draws (formula_of cfg nm) (lookback cfg) (offset cfg) i)
    \<and> (wk_refB draws (formula_of cfg nm) (lookback cfg) (offset cfg) i
         - wk_refA draws (formula_of cfg nm) (lookback cfg) (offset cfg) i) mod 10 = 5"
proof -
  let ?form = "formula_of cfg nm"
  let ?nums = "numbers (draws ! (i - lookback cfg))"
  have wf': "wf_formula (f_type ?form) (f_inputs ?form) (f_ops ?form) ?nums"
    using assms(3) by (simp add: formula_of_def)
  have base: "wk_refBaseArray ?form (lookback cfg) draws ! i
           = spec_base (inputIndices cfg) (operators cfg) ?nums"
    using wk_refBaseArray_nth[OF assms(1,2)] wk_base_value[OF wf'] by (simp add: formula_of_def)
  note ra = wk_refA_nth[OF assms(1,2), of ?form "offset cfg"]
  note rb = wk_refB_nth[OF assms(1,2), of ?form "offset cfg"]
  have asA: "as_refA cfg draws i = Some (wk_refA draws ?form (lookback cfg) (offset cfg) i)"
    by (simp add: as_refA_def getReferenceBase_value[OF assms(3)] ra base)
  have asB: "as_refB cfg draws i = Some (wk_refB draws ?form (lookback cfg) (offset cfg) i)"
    by (simp add: as_refB_def asA rb)
  have rng: "0 \<le> wk_refA draws ?form (lookback cfg) (offset cfg) i"
       "wk_refA draws ?form (lookback cfg) (offset cfg) i < 10"
    by (simp_all add: ra)
  have "(wk_refB draws ?form (lookback cfg) (offset cfg) i
         - wk_refA draws ?form (lookback cfg) (offset cfg) i) mod 10 = 5"
    using five_apart[OF rng] by (simp add: rb)
  with base ra rb asA asB show ?thesis by simp
qed

theorem C4_references_witness:
  "lookback cfg_pos0 \<le> 1 \<and> 1 < length [draw_2024001, draw_2024002]
   \<and> wf_formula (ftype cfg_pos0) (inputIndices cfg_pos0) (operators cfg_pos0)
        (numbers ([draw_2024001, draw_2024002] ! (1 - lookback cfg_pos0)))
   \<and> as_refA cfg_pos0 [draw_2024001, draw_2024002] 1 = Some 1
   \<and> as_refB cfg_pos0 [draw_2024001, draw_2024002] 1 = Some 6
   \<and> (wk_refB [draw_2024001, draw_2024002] (formula_of cfg_pos0 []) (lookback cfg_pos0) (offset cfg_pos0) 1
         - wk_refA [draw_2024001, draw_2024002] (formula_of cfg_pos0 []) (lookback cfg_pos0) (offset cfg_pos0) 1)
        mod 10 = 5"
proof -
  have h1: "lookback cfg_pos0 \<le> 1" by (simp add: cfg_pos0_def)
  have h2: "1 < length [draw_2024001, draw_2024002]" by simp
  have h3: "wf_formula (ftype cfg_pos0) (inputIndices cfg_pos0) (operators cfg_pos0)
        (numbers ([draw_2024001, draw_2024002] ! (1 - lookback cfg_pos0)))"
    by (simp add: cfg_pos0_def wf_formula_def draw_2024001_def)
  have a: "as_refA cfg_pos0 [draw_2024001, draw_2024002] 1 = Some 1" by code_simp
  have b: "as_refB cfg_pos0 [draw_2024001, draw_2024002] 1 = Some 6" by code_simp
  note th = C4_references[OF h1 h2 h3, of "[]"]
  note c = th[THEN conjunct2, THEN conjunct2, THEN conjunct2, THEN conjunct2, THEN conjunct2]
  show ?thesis
    by (intro conjI h1 h2 h3 a b c)
qed


subsection \<open>The win test\<close>

lemma track_winHistory:
  "acc_winHistory (as_track i w y st) = (acc_winHistory st)[i := w]"
  by (simp add: as_track_def Let_def)

lemma run_winHistory_length:
  "length (acc_winHistory (track_run w y st ixs)) = length (acc_winHistory st)"
  by (induction ixs arbitrary: st) (simp_all add: track_run_Nil track_run_Cons track_winHistory)

lemma run_winHistory_nth:
  "j < length (acc_winHistory st) \<Longrightarrow>
   acc_winHistory (track_run w y st ixs) ! j = (if j \<in> set ixs then w j else acc_winHistory st ! j)"
proof (induction ixs rule: rev_induct)
  case Nil
  then show ?case by (simp add: track_run_Nil)
next
  case (snoc x xs)
  show ?case
  proof (cases "x = j")
    case True
    with snoc.prems show ?thesis
      by (simp add: track_run_snoc track_winHistory run_winHistory_length)
  next
    case False
    with snoc show ?thesis by (simp add: track_run_snoc track_winHistory)
  qed
qed

text \<open>The records of generateHistory.\<close>

lemma gh_fold:
  "foldl (gh_step cfg draws) (c, h) ixs =
     (c + sum_list (map (\<lambda>i. profit_of (period_isWin cfg draws i)) ixs),
      h @ gh_records cfg draws c ixs)"
  by (induction ixs arbitrary: c h)
     (simp_all add: gh_step_def Let_def profit_of_def)

lemma generateHistory_records:
  "generateHistory cfg draws = gh_records cfg draws 0 [lookback cfg ..< length draws]"
  by (simp add: generateHistory_def gh_fold)

lemma gh_records_length: "length (gh_records cfg draws c ixs) = length ixs"
  by (induction ixs arbitrary: c) (simp_all add: Let_def)

lemma gh_records_isWin:
  "map isWin (gh_records cfg draws c ixs) = map (period_isWin cfg draws) ixs"
  by (induction ixs arbitrary: c) (simp_all add: Let_def)

lemma gh_records_profit:
  "map p_profit (gh_records cfg draws c ixs) = map (\<lambda>i. profit_of (period_isWin cfg draws i)) ixs"
  by (induction ixs arbitrary: c) (simp_all add: Let_def profit_of_def)

lemma gh_records_last:
  "ixs \<noteq> [] \<Longrightarrow> cumulativeProfit (last (gh_records cfg draws c ixs))
     = c + sum_list (map (\<lambda>i. profit_of (period_isWin cfg draws i)) ixs)"
proof (induction ixs arbitrary: c)
  case Nil
  then show ?case by simp
next
  case (Cons i ixs)
  show ?case
  proof (cases "ixs = []")
    case True
    then show ?thesis by (simp add: Let_def profit_of_def)
  next
    case False
    then have "gh_records cfg draws (c + profit_of (period_isWin cfg draws i)) ixs \<noteq> []"
      using gh_records_length[of cfg draws _ ixs] by (metis length_0_conv)
    with Cons.IH[OF False] show ?thesis by (simp add: Let_def profit_of_def)
  qed
qed

lemma history_outcomes: "map isWin (generateHistory cfg draws) = as_outcomes cfg draws"
  by (simp add: generateHistory_records gh_records_isWin as_outcomes_def)

lemma matchCount_hits:
  assumes "length (targetIndices cfg) = 3"
  shows "matchCount cfg draws i
    = target_hits (numbers (draws ! i)) (targetIndices cfg) (as_refA cfg draws i) (as_refB cfg draws i)"
proof -
  from assms obtain a b c where t: "targetIndices cfg = [a, b, c]"
    by (auto simp: length_Suc_conv eval_nat_numeral)
  show ?thesis
    by (simp add: matchCount_def target_hits_def as_refA_def as_refB_def Let_def t
        js_index2_def js_index_def)
qed

lemma wk_matches_hits:
  "wk_matches draws targets ra rb i
    = target_hits (numbers (draws ! i)) targets (Some (ra ! i)) (Some (rb ! i))"
  by (simp add: wk_matches_def target_hits_def Let_def)

text \<open>
  C2. For every evaluated draw index \<open>i\<close> (\<open>lookback \<le> i < N\<close>) and three target positions,
  the period is a win if and only if exactly one of the three target positions of draw
  \<open>i\<close> holds \<open>refA[i]\<close> or \<open>refB[i]\<close>; with two matching positions it is a loss. This is the
  outcome recorded by \<open>generateHistory\<close>, by \<open>analyzeStrategy\<close> in its win history, and by
  the worker.
\<close>

theorem C2_win_test:
  assumes "lookback cfg \<le> i" and "i < length draws" and "length (targetIndices cfg) = 3"
  shows
   "(isWin (generateHistory cfg draws ! (i - lookback cfg))
       \<longleftrightarrow> target_hits (numbers (draws ! i)) (targetIndices cfg)
             (as_refA cfg draws i) (as_refB cfg draws i) = 1)
    \<and> (acc_winHistory (as_pass cfg draws) ! i
       \<longleftrightarrow> target_hits (numbers (draws ! i)) (targetIndices cfg)
             (as_refA cfg draws i) (as_refB cfg draws i) = 1)
    \<and> (wk_outcomes draws form (lookback cfg) off (targetIndices cfg) ! (i - lookback cfg)
       \<longleftrightarrow> target_hits (numbers (draws ! i)) (targetIndices cfg)
             (Some (wk_refA draws form (lookback cfg) off i))
             (Some (wk_refB draws form (lookback cfg) off i)) = 1)
    \<and> (target_hits (numbers (draws ! i)) (targetIndices cfg)
             (as_refA cfg draws i) (as_refB cfg draws i) = 2
       \<longrightarrow> \<not> isWin (generateHistory cfg draws ! (i - lookback cfg))
           \<and> \<not> acc_winHistory (as_pass cfg draws) ! i)
    \<and> (target_hits (numbers (draws ! i)) (targetIndices cfg)
             (Some (wk_refA draws form (lookback cfg) off i))
             (Some (wk_refB draws form (lookback cfg) off i)) = 2
       \<longrightarrow> \<not> wk_outcomes draws form (lookback cfg) off (targetIndices cfg) ! (i - lookback cfg))"
proof -
  let ?lb = "lookback cfg"
  have k: "i - ?lb < length [?lb ..< length draws]" "[?lb ..< length draws] ! (i - ?lb) = i"
    using assms(1,2) by simp_all
  have "isWin (generateHistory cfg draws ! (i - ?lb)) = map isWin (generateHistory cfg draws) ! (i - ?lb)"
    using k(1) by (simp add: generateHistory_records gh_records_length)
  also have "\<dots> = period_isWin cfg draws i"
    using k assms(1,2) by (simp add: history_outcomes as_outcomes_def)
  finally have a: "isWin (generateHistory cfg draws ! (i - ?lb)) = period_isWin cfg draws i" .
  have b: "acc_winHistory (as_pass cfg draws) ! i = period_isWin cfg draws i"
    using assms(1,2) by (simp add: as_pass_run run_winHistory_nth init_state_def)
  have c: "wk_outcomes draws form ?lb off (targetIndices cfg) ! (i - ?lb)
       = (target_hits (numbers (draws ! i)) (targetIndices cfg)
             (Some (wk_refA draws form ?lb off i)) (Some (wk_refB draws form ?lb off i)) = 1)"
    using k assms(1,2)
    by (simp add: wk_outcomes_def Let_def split_beta wk_isWin_def wk_matches_hits wk_refA_def wk_refB_def)
  show ?thesis
    by (simp add: a b c period_isWin_def matchCount_hits[OF assms(3)])
qed

theorem C2_win_test_witness:
  "lookback cfg_pos0 \<le> 1 \<and> 1 < length [draw_2024001, draw_two_hits]
   \<and> length (targetIndices cfg_pos0) = 3
   \<and> target_hits (numbers ([draw_2024001, draw_two_hits] ! 1)) (targetIndices cfg_pos0)
        (as_refA cfg_pos0 [draw_2024001, draw_two_hits] 1)
        (as_refB cfg_pos0 [draw_2024001, draw_two_hits] 1) = 2
   \<and> \<not> isWin (generateHistory cfg_pos0 [draw_2024001, draw_two_hits] ! (1 - lookback cfg_pos0))
   \<and> \<not> acc_winHistory (as_pass cfg_pos0 [draw_2024001, draw_two_hits]) ! 1"
proof -
  have h1: "lookback cfg_pos0 \<le> 1" by (simp add: cfg_pos0_def)
  have h2: "1 < length [draw_2024001, draw_two_hits]" by simp
  have h3: "length (targetIndices cfg_pos0) = 3" by (simp add: cfg_pos0_def)
  have e: "target_hits (numbers ([draw_2024001, draw_two_hits] ! 1)) (targetIndices cfg_pos0)
        (as_refA cfg_pos0 [draw_2024001, draw_two_hits] 1)
        (as_refB cfg_pos0 [draw_2024001, draw_two_hits] 1) = 2"
    by code_simp
  note th = C2_win_test[OF h1 h2 h3, of form_pos0 0]
  note c4 = th[THEN conjunct2, THEN conjunct2, THEN conjunct2, THEN conjunct1, THEN mp, OF e]
  show ?thesis
    by (intro conjI h1 h2 h3 e c4[THEN conjunct1] c4[THEN conjunct2])
qed


subsection \<open>Survival statistics\<close>

lemma wk_simLoop_eq: "wk_simLoop wh n j p c = simLoop wh n j p c"
proof (induction wh n j p c rule: simLoop.induct)
  case (1 wh drawCount j simPnL simCount)
  then show ?case
    by (subst wk_simLoop.simps, subst simLoop.simps) (auto simp: Let_def)
qed

lemma wk_surv_step_eq: "wk_surv_step wh n s i = surv_step wh n s i"
  by (cases s) (simp add: wk_surv_step_def surv_step_def wk_simLoop_eq)

lemma wk_survival_eq: "wk_survival wh lb n = survival wh lb n"
  by (simp add: wk_survival_def survival_def wk_surv_step_eq[abs_def])

lemma simLoop_count:
  "simLoop wh (length wh) j p c = c + sim_count p (drop j wh)"
proof (induction wh "length wh" j p c rule: simLoop.induct)
  case (1 wh j simPnL simCount)
  show ?case
  proof (cases "j < length wh")
    case True
    then have d: "drop j wh = wh ! j # drop (Suc j) wh"
      by (simp add: Cons_nth_drop_Suc)
    show ?thesis
    proof (cases "simPnL + profit_of (wh ! j) \<le> - 1000")
      case stop: True
      with True show ?thesis
        by (subst simLoop.simps) (simp add: d Let_def profit_of_def)
    next
      case go: False
      have "simLoop wh (length wh) (j + 1) (simPnL + profit_of (wh ! j)) (simCount + 1)
            = simCount + 1 + sim_count (simPnL + profit_of (wh ! j)) (drop (j + 1) wh)"
        using True go by (intro "1.hyps") (simp_all add: profit_of_def)
      with True go show ?thesis
        by (subst simLoop.simps) (simp add: d Let_def profit_of_def)
    qed
  next
    case False
    then show ?thesis by (subst simLoop.simps) simp
  qed
qed

lemma wins_before_Suc:
  "m < length ws \<Longrightarrow> wins_before ws (Suc m) = (if ws ! m then Suc (wins_before ws m) else 0)"
  by (simp add: wins_before_def take_Suc_conv_app_nth)

lemma wins_before_0: "wins_before ws 0 = 0"
  by (simp add: wins_before_def)

lemma surv_step_inv:
  assumes "surv_inv (drop lb wh) m s" and "lb + m < length wh"
  shows "surv_inv (drop lb wh) (Suc m) (surv_step wh (length wh) s (lb + m))"
proof -
  let ?ws = "drop lb wh"
  let ?entry = "\<lambda>i. sim_count 0 (drop (Suc i) ?ws)"
  have m: "m < length ?ws" using assms(2) by simp
  have dd: "drop (lb + m + 1) wh = drop (Suc m) ?ws" by (simp add: add.commute)
  obtain ts ps where s: "s = (ts, ps)" by (cases s)
  from assms(1) have ts: "if ts > 0 then ts = int (wins_before ?ws m) else wins_before ?ws m = 0"
    and ps: "ps = map ?entry (filter (is_break ?ws) [0 ..< m])"
    by (auto simp: surv_inv_def s split: if_splits)
  show ?thesis
  proof (cases "?ws ! m")
    case True
    then have nb: "\<not> is_break ?ws m" by (simp add: is_break_def)
    have whT: "wh ! (lb + m)" using True assms(2) by simp
    have step: "surv_step wh (length wh) s (lb + m) = ((if ts < 0 then 0 else ts) + 1, ps)"
      using whT assms(2) by (simp add: surv_step_def s)
    have c: "(if ts < 0 then 0 else ts) + 1 = int (wins_before ?ws (Suc m))"
      using ts True by (simp add: wins_before_Suc[OF m] split: if_splits)
    have p: "ps = map ?entry (filter (is_break ?ws) [0 ..< Suc m])"
      using ps nb by simp
    show ?thesis
      unfolding step surv_inv_def fst_conv snd_conv c using p by simp
  next
    case False
    have brk: "is_break ?ws m \<longleftrightarrow> ts \<ge> 9"
      using ts False by (simp add: is_break_def split: if_splits)
    have sim: "simLoop wh (length wh) (Suc (lb + m)) 0 0 = ?entry m"
      using dd by (simp only: simLoop_count) simp
    have whF: "\<not> wh ! (lb + m)" using False assms(2) by simp
    have step: "surv_step wh (length wh) s (lb + m)
        = (- 1, if ts \<ge> 9 then ps @ [?entry m] else ps)"
      using whF by (simp add: surv_step_def s sim)
    have w0: "wins_before ?ws (Suc m) = 0"
      using False by (simp add: wins_before_Suc[OF m])
    have p: "(if ts \<ge> 9 then ps @ [?entry m] else ps)
        = map ?entry (filter (is_break ?ws) [0 ..< Suc m])"
      using ps brk by simp
    show ?thesis
      unfolding step surv_inv_def fst_conv snd_conv using w0 p by simp
  qed
qed

lemma surv_fold_inv:
  "lb + m \<le> length wh \<Longrightarrow>
   surv_inv (drop lb wh) m (foldl (surv_step wh (length wh)) (0, []) [lb ..< lb + m])"
proof (induction m)
  case 0
  then show ?case by (simp add: surv_inv_def wins_before_0)
next
  case (Suc m)
  then have "surv_inv (drop lb wh) m (foldl (surv_step wh (length wh)) (0, []) [lb ..< lb + m])"
    by simp
  from surv_step_inv[OF this] Suc.prems show ?case by simp
qed

lemma survival_spec:
  "survival wh lb (length wh) = spec_survival (drop lb wh)"
proof (cases "lb \<le> length wh")
  case True
  then have "surv_inv (drop lb wh) (length wh - lb)
      (foldl (surv_step wh (length wh)) (0, []) [lb ..< lb + (length wh - lb)])"
    by (intro surv_fold_inv) simp
  with True show ?thesis
    by (simp add: surv_inv_def survival_def spec_survival_def)
next
  case False
  then show ?thesis by (simp add: survival_def spec_survival_def)
qed

lemma run_winHistory_drop:
  assumes "length (acc_winHistory st) = n"
  shows "drop lb (acc_winHistory (track_run w y st [lb ..< n])) = map w [lb ..< n]"
proof (rule nth_equalityI)
  show "length (drop lb (acc_winHistory (track_run w y st [lb ..< n]))) = length (map w [lb ..< n])"
    by (simp add: run_winHistory_length assms)
next
  fix i assume "i < length (drop lb (acc_winHistory (track_run w y st [lb ..< n])))"
  then have i: "lb + i < n" by (simp add: run_winHistory_length assms)
  then show "drop lb (acc_winHistory (track_run w y st [lb ..< n])) ! i = map w [lb ..< n] ! i"
    by (simp add: run_winHistory_length assms run_winHistory_nth)
qed

lemma as_periods:
  "periods (survivalStats (analyzeStrategy lc cfg draws)) = spec_survival (as_outcomes cfg draws)"
proof -
  let ?st = "as_pass cfg draws"
  have len: "length (acc_winHistory ?st) = length draws"
    by (simp add: as_pass_run run_winHistory_length init_state_def)
  have "periods (survivalStats (analyzeStrategy lc cfg draws))
        = survival (acc_winHistory ?st) (lookback cfg) (length (acc_winHistory ?st))"
    by (simp add: analyzeStrategy_def Let_def mk_survivalStats_def len)
  also have "\<dots> = spec_survival (drop (lookback cfg) (acc_winHistory ?st))"
    by (rule survival_spec)
  also have "drop (lookback cfg) (acc_winHistory ?st) = as_outcomes cfg draws"
    by (simp add: as_pass_run as_outcomes_def run_winHistory_drop init_state_def)
  finally show ?thesis .
qed

lemma wk_periods:
  "periods (survivalStats (worker_entry draws form lb off targets))
     = spec_survival (wk_outcomes draws form lb off targets)"
proof -
  obtain ra rb where r: "wk_refArrays (wk_refBaseArray form lb draws) off lb (length draws) = (ra, rb)"
    by (cases "wk_refArrays (wk_refBaseArray form lb draws) off lb (length draws)")
  let ?st = "wk_pass draws lb targets ra rb"
  have len: "length (acc_winHistory ?st) = length draws"
    by (simp add: wk_pass_run run_winHistory_length init_state_def)
  have "periods (survivalStats (worker_entry draws form lb off targets))
        = survival (acc_winHistory ?st) lb (length (acc_winHistory ?st))"
    by (simp add: worker_entry_def wk_entry_def r Let_def mk_survivalStats_def len wk_survival_eq)
  also have "\<dots> = spec_survival (drop lb (acc_winHistory ?st))"
    by (rule survival_spec)
  also have "drop lb (acc_winHistory ?st) = wk_outcomes draws form lb off targets"
    by (simp add: wk_pass_run wk_outcomes_def r run_winHistory_drop init_state_def)
  finally show ?thesis .
qed

lemma as_survival_count:
  "count (survivalStats (analyzeStrategy lc cfg draws))
     = int (length (periods (survivalStats (analyzeStrategy lc cfg draws))))"
  by (simp add: analyzeStrategy_def Let_def mk_survivalStats_def)

lemma wk_survival_count:
  "count (survivalStats (worker_entry draws form lb off targets))
     = int (length (periods (survivalStats (worker_entry draws form lb off targets))))"
  by (simp add: worker_entry_def wk_entry_def Let_def split_beta mk_survivalStats_def)

text \<open>
  C6. For every configuration and every draw sequence, \<open>survivalStats.periods\<close> holds one
  entry per overheat break (a loss that immediately follows a win streak of length at
  least 9 among the evaluated periods), in order, and the entry is the number of periods
  simulated from the period after the break: each adds \<open>WIN_PROFIT\<close> or \<open>LOSE_COST\<close> to a
  fresh running total, and the simulation stops as soon as the total is at most -1000 or
  the draws are exhausted. \<open>survivalStats.count\<close> is the number of breaks.
\<close>

theorem C6_survival:
  "periods (survivalStats (analyzeStrategy lc cfg draws)) = spec_survival (as_outcomes cfg draws)
   \<and> periods (survivalStats (worker_entry draws form lb off targets))
       = spec_survival (wk_outcomes draws form lb off targets)
   \<and> count (survivalStats (analyzeStrategy lc cfg draws))
       = int (length (filter (is_break (as_outcomes cfg draws)) [0 ..< length (as_outcomes cfg draws)]))
   \<and> count (survivalStats (worker_entry draws form lb off targets))
       = int (length (filter (is_break (wk_outcomes draws form lb off targets))
                [0 ..< length (wk_outcomes draws form lb off targets)]))"
  by (simp add: as_survival_count wk_survival_count as_periods wk_periods)
     (simp add: spec_survival_def)

subsection \<open>The batch run and the single-configuration paths\<close>

lemma track_run_cong:
  "(\<And>i. i \<in> set ixs \<Longrightarrow> w i = w' i) \<Longrightarrow> track_run w y st ixs = track_run w' y st ixs"
  by (induction ixs arbitrary: st) (simp_all add: track_run_Nil track_run_Cons)

lemma insert_by_insort_key:
  "(\<And>y. y \<in> set ys \<Longrightarrow> (cmp x y \<le> 0) = (f x \<le> f y)) \<Longrightarrow>
   insert_by cmp x ys = insort_key f x ys"
  by (induction ys) simp_all

lemma set_insert_by: "set (insert_by cmp x ys) = insert x (set ys)"
  by (induction ys) auto

lemma length_insert_by: "length (insert_by cmp x ys) = Suc (length ys)"
  by (induction ys) simp_all

lemma set_sort_by: "set (sort_by cmp xs) = set xs"
  by (induction xs) (simp_all add: sort_by_def set_insert_by)

lemma length_sort_by: "length (sort_by cmp xs) = length xs"
  by (induction xs) (simp_all add: sort_by_def length_insert_by)

lemma sort_by_sort_key:
  "(\<And>x y. x \<in> set xs \<Longrightarrow> y \<in> set xs \<Longrightarrow> (cmp x y \<le> 0) = (f x \<le> f y)) \<Longrightarrow>
   sort_by cmp xs = sort_key f xs"
proof (induction xs)
  case Nil
  then show ?case by (simp add: sort_by_def)
next
  case (Cons x xs)
  have ih: "sort_by cmp xs = sort_key f xs"
    using Cons.prems by (intro Cons.IH) simp_all
  have "sort_by cmp (x # xs) = insert_by cmp x (sort_by cmp xs)"
    by (simp add: sort_by_def)
  also have "\<dots> = insort_key f x (sort_by cmp xs)"
    using Cons.prems by (intro insert_by_insort_key) (simp add: set_sort_by)
  finally show ?case by (simp add: ih)
qed

lemma insort_key_map_inv:
  "f (g k) = k \<Longrightarrow> (\<And>x. x \<in> set xs \<Longrightarrow> f (g x) = x) \<Longrightarrow>
   insort_key f (g k) (map g xs) = map g (insort k xs)"
  by (induction xs) simp_all

lemma sort_key_map_inv:
  "(\<And>x. x \<in> set ks \<Longrightarrow> f (g x) = x) \<Longrightarrow> sort_key f (map g ks) = map g (sort ks)"
proof (induction ks)
  case Nil
  then show ?case by simp
next
  case (Cons k ks)
  have "sort_key f (map g (k # ks)) = insort_key f (g k) (sort_key f (map g ks))"
    by simp
  also have "\<dots> = insort_key f (g k) (map g (sort ks))"
    using Cons by simp
  also have "\<dots> = map g (insort k (sort ks))"
    using Cons.prems by (intro insort_key_map_inv) simp_all
  finally show ?case by simp
qed

text \<open>
  The two sorts of the years give the same list where the collation orders the years
  present as their code units do.
\<close>

lemma annualStats_eq:
  assumes "distinct (map fst m)"
    and agree: "\<And>a b. a \<in> fst ` set m \<Longrightarrow> b \<in> fst ` set m \<Longrightarrow> (lc a b \<le> 0) = (a \<le> b)"
  shows "as_annualStats lc m = wk_annualStats m"
proof -
  let ?mk = "\<lambda>(y, p, w, c). \<lparr> year = y, profit = p, winCount = w, totalCount = c \<rparr>"
  let ?g = "\<lambda>y. case map_of m y of
                 None \<Rightarrow> \<lparr> year = y, profit = 0, winCount = 0, totalCount = 0 \<rparr>
               | Some (p, w, c) \<Rightarrow> \<lparr> year = y, profit = p, winCount = w, totalCount = c \<rparr>"
  have g: "?g (fst e) = ?mk e" if "e \<in> set m" for e
  proof -
    obtain y p w c where e: "e = (y, p, w, c)" by (cases e) auto
    with that assms(1) have "map_of m y = Some (p, w, c)" by simp
    with e show ?thesis by simp
  qed
  have yr: "year (?g y) = y" for y
    by (auto split: option.splits)
  have mk: "map ?mk m = map ?g (map fst m)"
    using g by simp
  have "as_annualStats lc m = sort_by (\<lambda>a b. lc (year a) (year b)) (map ?g (map fst m))"
    using mk by (simp only: as_annualStats_def)
  also have "\<dots> = sort_key year (map ?g (map fst m))"
  proof (rule sort_by_sort_key)
    fix x y
    assume "x \<in> set (map ?g (map fst m))" "y \<in> set (map ?g (map fst m))"
    then have "year x \<in> fst ` set m" "year y \<in> fst ` set m"
      using yr by (auto simp del: map_map)
    then show "(lc (year x) (year y) \<le> 0) = (year x \<le> year y)" by (rule agree)
  qed
  also have "\<dots> = map ?g (sort (map fst m))"
    by (rule sort_key_map_inv) (rule yr)
  finally show ?thesis by (simp only: wk_annualStats_def)
qed

text \<open>In any case they hold the same entries.\<close>

lemma annualStats_set:
  assumes "distinct (map fst m)"
  shows "set (as_annualStats lc m) = set (wk_annualStats m)"
    and "length (as_annualStats lc m) = length (wk_annualStats m)"
proof -
  have "set (wk_annualStats m) = set (as_annualStats code_unit_compare m)"
    by (subst annualStats_eq[OF assms, of code_unit_compare])
       (auto simp: code_unit_compare_def)
  then show "set (as_annualStats lc m) = set (wk_annualStats m)"
    by (simp add: as_annualStats_def set_sort_by)
  show "length (as_annualStats lc m) = length (wk_annualStats m)"
    by (simp add: as_annualStats_def wk_annualStats_def length_sort_by)
qed

lemma annual_add_distinct:
  "distinct (map fst m) \<Longrightarrow> distinct (map fst (annual_add y p w m))"
  by (simp add: annual_add_def split_beta distinct_update Let_def)

lemma track_annualMap:
  "acc_annualMap (as_track i w y st) = annual_add y (if w then WIN_PROFIT else LOSE_COST) w (acc_annualMap st)"
  by (simp add: as_track_def Let_def)

lemma run_annual_distinct:
  "distinct (map fst (acc_annualMap st)) \<Longrightarrow>
   distinct (map fst (acc_annualMap (track_run w y st ixs)))"
  by (induction ixs arbitrary: st)
     (simp_all add: track_run_Nil track_run_Cons track_annualMap annual_add_distinct del: distinct_map)

lemma outcome_agree:
  assumes "lb \<le> i" and "i < length draws"
    and "wf_form form" and "length (numbers (draws ! (i - lb))) = 5" and "length targets = 3"
    and cfg: "ftype cfg = f_type form" "inputIndices cfg = f_inputs form"
        "operators cfg = f_ops form" "offset cfg = off" "lookback cfg = lb"
        "targetIndices cfg = targets"
  shows "wk_isWin draws targets
           (fst (wk_refArrays (wk_refBaseArray form lb draws) off lb (length draws)))
           (snd (wk_refArrays (wk_refBaseArray form lb draws) off lb (length draws))) i
         = period_isWin cfg draws i"
proof -
  have f: "formula_of cfg (f_name form) = form"
    by (simp add: formula_of_def cfg)
  have wf: "wf_formula (ftype cfg) (inputIndices cfg) (operators cfg) (numbers (draws ! (i - lookback cfg)))"
    using assms(3,4) by (simp add: wf_formula_def wf_form_def cfg)
  have l: "lookback cfg \<le> i" using assms(1) cfg by simp
  note ra = ref_agree[OF l assms(2) wf, of "f_name form", unfolded f cfg]
  have t3: "length (targetIndices cfg) = 3" using assms(5) cfg by simp
  show ?thesis
    using ra
    by (simp add: wk_isWin_def wk_matches_hits period_isWin_def matchCount_hits[OF t3]
        wk_refA_def wk_refB_def cfg)
qed


lemma wk_config:
  "config (worker_entry draws form lb off targets) =
     \<lparr> id_str = mk_id (f_type form) (f_inputs form) (f_ops form) targets off lb,
       ftype = f_type form, inputIndices = f_inputs form, operators = f_ops form,
       offset = off, targetIndices = targets, lookback = lb,
       name = f_name form @ nameSuffix off @ lbSuffix lb \<rparr>"
  by (simp add: worker_entry_def wk_entry_def Let_def split_beta)

lemma pass_agree:
  assumes "wf_form form" and "list_all wf_draw draws" and "length targets = 3"
    and r: "wk_refArrays (wk_refBaseArray form lb draws) off lb (length draws) = (ra, rb)"
  shows "wk_pass draws lb targets ra rb
         = as_pass (config (worker_entry draws form lb off targets)) draws"
proof -
  let ?cfg = "config (worker_entry draws form lb off targets)"
  have lb: "lookback ?cfg = lb" by (simp add: wk_config)
  have "wk_isWin draws targets ra rb i = period_isWin ?cfg draws i"
    if "i \<in> set [lb ..< length draws]" for i
  proof -
    from that have i: "lb \<le> i" "i < length draws" by simp_all
    then have "i - lb < length draws" by simp
    with assms(2) have "wf_draw (draws ! (i - lb))" by (simp add: list_all_length)
    then have five: "length (numbers (draws ! (i - lb))) = 5" by (simp add: wf_draw_def)
    show ?thesis
      using outcome_agree[OF i assms(1) five assms(3), of ?cfg off]
      by (simp add: wk_config r)
  qed
  then show ?thesis
    unfolding wk_pass_run as_pass_run lb by (intro track_run_cong)
qed


text \<open>
  On draws of the data model, \<open>analyzeStrategy\<close> on the configuration of an entry of the
  worker returns the entry, but for the arrangement of the years.
\<close>

lemma entry_agree_rest:
  assumes "wf_form form" and "list_all wf_draw draws" and "length targets = 3"
  shows "analyzeStrategy lc (config (worker_entry draws form lb off targets)) draws
         = (worker_entry draws form lb off targets)
             \<lparr> annualStats := as_annualStats lc
                 (acc_annualMap (as_pass (config (worker_entry draws form lb off targets)) draws)) \<rparr>"
    and "annualStats (worker_entry draws form lb off targets)
         = wk_annualStats
             (acc_annualMap (as_pass (config (worker_entry draws form lb off targets)) draws))"
proof -
  obtain ra rb where r: "wk_refArrays (wk_refBaseArray form lb draws) off lb (length draws) = (ra, rb)"
    by (cases "wk_refArrays (wk_refBaseArray form lb draws) off lb (length draws)")
  define cfgv where "cfgv = config (worker_entry draws form lb off targets)"
  have cv: "cfgv =
     \<lparr> id_str = mk_id (f_type form) (f_inputs form) (f_ops form) targets off lb,
       ftype = f_type form, inputIndices = f_inputs form, operators = f_ops form,
       offset = off, targetIndices = targets, lookback = lb,
       name = f_name form @ nameSuffix off @ lbSuffix lb \<rparr>"
    unfolding cfgv_def by (rule wk_config)
  have lbv: "lookback cfgv = lb" by (simp add: cv)
  have p: "wk_pass draws lb targets ra rb = as_pass cfgv draws"
    unfolding cfgv_def by (rule pass_agree[OF assms r])
  have w: "worker_entry draws form lb off targets = wk_entry draws form lb off targets ra rb"
    by (simp add: worker_entry_def r)
  have "analyzeStrategy lc cfgv draws
        = (wk_entry draws form lb off targets ra rb)
             \<lparr> annualStats := as_annualStats lc (acc_annualMap (as_pass cfgv draws)) \<rparr>"
    unfolding analyzeStrategy_def wk_entry_def Let_def p lbv wk_flush_eq wk_survival_eq
      OVERHEAT_THRESHOLD_def cv[symmetric]
    by (simp only: StrategyStats.update_convs)
  then show "analyzeStrategy lc (config (worker_entry draws form lb off targets)) draws
         = (worker_entry draws form lb off targets)
             \<lparr> annualStats := as_annualStats lc
                 (acc_annualMap (as_pass (config (worker_entry draws form lb off targets)) draws)) \<rparr>"
    by (simp only: w cfgv_def)
  have "annualStats (wk_entry draws form lb off targets ra rb)
        = wk_annualStats (acc_annualMap (as_pass cfgv draws))"
    unfolding wk_entry_def Let_def p by (simp only: StrategyStats.select_convs)
  then show "annualStats (worker_entry draws form lb off targets)
         = wk_annualStats
             (acc_annualMap (as_pass (config (worker_entry draws form lb off targets)) draws))"
    by (simp only: w cfgv_def)
qed

lemma as_annualMap_distinct: "distinct (map fst (acc_annualMap (as_pass cfg draws)))"
  unfolding as_pass_run by (intro run_annual_distinct) (simp add: init_state_def)

lemma track_annual_keys:
  "fst ` set (acc_annualMap (as_track i w y st)) = insert y (fst ` set (acc_annualMap st))"
  by (simp add: track_annualMap annual_add_def split_beta Let_def dom_update)

lemma run_annual_keys:
  "fst ` set (acc_annualMap (track_run w y st ixs)) = fst ` set (acc_annualMap st) \<union> y ` set ixs"
  by (induction ixs arbitrary: st)
     (auto simp: track_run_Nil track_run_Cons track_annual_keys)

lemma as_annual_keys:
  "fst ` set (acc_annualMap (as_pass cfg draws))
     = (\<lambda>i. year_of (issue (draws ! i))) ` set [lookback cfg ..< length draws]"
  unfolding as_pass_run by (simp add: run_annual_keys init_state_def)

text \<open>
  It returns the entry itself where the collation orders the years of the evaluated
  periods as their code units do.
\<close>

lemma entry_agree:
  assumes "wf_form form" and "list_all wf_draw draws" and "length targets = 3"
    and agree: "\<And>i j. lb \<le> i \<Longrightarrow> i < length draws \<Longrightarrow> lb \<le> j \<Longrightarrow> j < length draws \<Longrightarrow>
       (lc (year_of (issue (draws ! i))) (year_of (issue (draws ! j))) \<le> 0)
         = (year_of (issue (draws ! i)) \<le> year_of (issue (draws ! j)))"
  shows "analyzeStrategy lc (config (worker_entry draws form lb off targets)) draws
         = worker_entry draws form lb off targets"
proof -
  let ?s = "worker_entry draws form lb off targets"
  let ?m = "acc_annualMap (as_pass (config ?s) draws)"
  have lb: "lookback (config ?s) = lb" by (simp add: wk_config)
  have "as_annualStats lc ?m = wk_annualStats ?m"
  proof (rule annualStats_eq[OF as_annualMap_distinct])
    fix a b assume "a \<in> fst ` set ?m" "b \<in> fst ` set ?m"
    then obtain i j where "a = year_of (issue (draws ! i))" "lb \<le> i" "i < length draws"
      "b = year_of (issue (draws ! j))" "lb \<le> j" "j < length draws"
      unfolding as_annual_keys lb by auto
    then show "(lc a b \<le> 0) = (a \<le> b)" using agree by simp
  qed
  then have "as_annualStats lc ?m = annualStats ?s"
    by (simp only: entry_agree_rest(2)[OF assms(1-3)])
  then show ?thesis
    by (subst entry_agree_rest(1)[OF assms(1-3)]) simp
qed

lemma formulas_wf_eval: "(case formulas of None \<Rightarrow> False | Some fs \<Rightarrow> list_all wf_form fs)"
  by code_simp

lemma formulas_wf:
  assumes "formulas = Some fs" and "form \<in> set fs"
  shows "wf_form form"
proof -
  have "list_all wf_form fs"
    using formulas_wf_eval unfolding assms(1) by simp
  with assms(2) show ?thesis by (simp add: list_all_iff)
qed

lemma targetGroups_eval: "list_all (\<lambda>t. length t = 3) targetGroups"
  by code_simp

lemma targetGroups_3: "targets \<in> set targetGroups \<Longrightarrow> length targets = 3"
  using targetGroups_eval by (simp add: list_all_iff)

lemma runWorker_set:
  assumes "runWorker draws = Some rs"
  shows "\<exists>fs. formulas = Some fs \<and>
     set rs = {worker_entry draws form lb off targets | form lb off targets.
                 form \<in> set fs \<and> lb \<in> set LOOKBACKS \<and> off \<in> set OFFSETS
                 \<and> targets \<in> set targetGroups}"
proof -
  obtain fs where fs: "formulas = Some fs"
    using assms by (cases formulas) (simp_all add: runWorker_def)
  have "rs = concat (map (\<lambda>form. concat (map (\<lambda>lb.
         concat (map (\<lambda>off. map (\<lambda>targets. worker_entry draws form lb off targets)
                     targetGroups) OFFSETS)) LOOKBACKS)) fs)"
    using assms unfolding runWorker_def fs
    by (simp add: worker_entry_def Let_def split_beta)
  then have "set rs = {worker_entry draws form lb off targets | form lb off targets.
                 form \<in> set fs \<and> lb \<in> set LOOKBACKS \<and> off \<in> set OFFSETS
                 \<and> targets \<in> set targetGroups}"
    by auto
  with fs show ?thesis by blast
qed


lemma gh_records_lastCumulative:
  "last (c # map cumulativeProfit (gh_records cfg draws c ixs))
     = c + sum_list (map (\<lambda>i. profit_of (period_isWin cfg draws i)) ixs)"
  by (induction ixs arbitrary: c) (simp_all add: Let_def profit_of_def)

lemma history_agree:
  "history_totalProfit (generateHistory cfg draws) = totalProfit (analyzeStrategy lc cfg draws)"
  "history_winDraws (generateHistory cfg draws) = winDraws (analyzeStrategy lc cfg draws)"
  "history_totalDraws (generateHistory cfg draws) = totalDraws (analyzeStrategy lc cfg draws)"
  "history_lastCumulative (generateHistory cfg draws) = totalProfit (analyzeStrategy lc cfg draws)"
proof -
  show "history_totalProfit (generateHistory cfg draws) = totalProfit (analyzeStrategy lc cfg draws)"
    by (simp add: history_totalProfit_def generateHistory_records gh_records_profit
        as_profit as_outcomes_def comp_def)
  have "filter id (map isWin (generateHistory cfg draws)) = filter id (as_outcomes cfg draws)"
    by (simp only: history_outcomes)
  then have "length (map isWin (filter isWin (generateHistory cfg draws)))
      = length (filter id (as_outcomes cfg draws))"
    by (simp add: filter_map comp_def)
  then have "length (filter isWin (generateHistory cfg draws)) = length (filter id (as_outcomes cfg draws))"
    by simp
  then show "history_winDraws (generateHistory cfg draws) = winDraws (analyzeStrategy lc cfg draws)"
    by (simp add: history_winDraws_def as_profit)
  show "history_totalDraws (generateHistory cfg draws) = totalDraws (analyzeStrategy lc cfg draws)"
    by (simp add: history_totalDraws_def generateHistory_records gh_records_length
        as_fields as_outcomes_def)
  have "history_lastCumulative (generateHistory cfg draws)
        = 0 + sum_list (map (\<lambda>i. profit_of (period_isWin cfg draws i)) [lookback cfg ..< length draws])"
    unfolding history_lastCumulative_def generateHistory_records
    by (rule gh_records_lastCumulative)
  then show "history_lastCumulative (generateHistory cfg draws) = totalProfit (analyzeStrategy lc cfg draws)"
    by (simp add: as_profit as_outcomes_def comp_def)
qed


lemma form_pos0_eval: "(case formulas of None \<Rightarrow> False | Some fs \<Rightarrow> form_pos0 \<in> set fs)"
  by code_simp

lemma as_annual_field:
  "annualStats (analyzeStrategy lc cfg draws) = as_annualStats lc (acc_annualMap (as_pass cfg draws))"
  by (simp add: analyzeStrategy_def Let_def)

lemma draws_aB_wf: "list_all wf_draw draws_aB"
  by (simp add: draws_aB_def wf_draw_def draw_a024001_def draw_a024002_def draw_B023003_def)

lemma draws_aB_entry:
  "worker_entry draws_aB form_pos0 1 0 [0, 1, 2] \<in> set (the (runWorker draws_aB))"
proof -
  obtain rs where rs: "runWorker draws_aB = Some rs" using runWorker_Some by blast
  from runWorker_set[OF rs] obtain fs where fs: "formulas = Some fs"
    and set: "set rs = {worker_entry draws_aB form lb off targets | form lb off targets.
                 form \<in> set fs \<and> lb \<in> set LOOKBACKS \<and> off \<in> set OFFSETS
                 \<and> targets \<in> set targetGroups}"
    by blast
  have f: "form_pos0 \<in> set fs"
    using form_pos0_eval unfolding fs by simp
  have l: "1 \<in> set LOOKBACKS" "0 \<in> set OFFSETS" by (simp_all add: LOOKBACKS_def OFFSETS_def)
  have t: "[0, 1, 2] \<in> set targetGroups" by code_simp
  have "worker_entry draws_aB form_pos0 1 0 [0, 1, 2] \<in> set rs"
    unfolding set using f l t by blast
  then show ?thesis by (simp add: rs)
qed

lemma draws_aB_annualMap:
  "acc_annualMap (as_pass (config (worker_entry draws_aB form_pos0 1 0 [0, 1, 2])) draws_aB)
     = [(utf16 ''a024'', 606, 1, 1), (utf16 ''B023'', - 384, 0, 1)]"
  by code_simp

lemma draws_aB_worker:
  "annualStats (worker_entry draws_aB form_pos0 1 0 [0, 1, 2])
     = [\<lparr> year = utf16 ''B023'', profit = - 384, winCount = 0, totalCount = 1 \<rparr>,
        \<lparr> year = utf16 ''a024'', profit = 606, winCount = 1, totalCount = 1 \<rparr>]"
  by code_simp

lemma years_aB: "utf16 ''a024'' \<noteq> utf16 ''B023''"
  by (simp add: utf16_def)

lemma form_pos0_wf: "wf_form form_pos0"
  by (simp add: wf_form_def form_pos0_def)

text \<open>
  C3. The cross-check of the single-configuration path against the batch run fails on
  the draws of the lines \<open>a024001,12345\<close>, \<open>a024002,62345\<close>, \<open>B023003,61345\<close>, which are of the
  data model and which \<open>parseCSV\<close> accepts. For the entry of the batch result with the
  formula "position 0", lookback 1, offset 0 and targets 0, 1, 2, and under a collation
  that puts \<open>a024\<close> before \<open>B023\<close>: \<open>analyzeStrategy\<close> on the entry's configuration returns
  the years \<open>a024\<close>, \<open>B023\<close> in this order, the entry holds them in the order \<open>B023\<close>, \<open>a024\<close>
  of the code units, so the two results are not the same \<open>StrategyStats\<close>; every other
  field of the two is the same.
\<close>

theorem C3_annualStats_divergence:
  assumes "lc (utf16 ''a024'') (utf16 ''B023'') < 0"
  shows "list_all wf_draw draws_aB
    \<and> worker_entry draws_aB form_pos0 1 0 [0, 1, 2] \<in> set (the (runWorker draws_aB))
    \<and> annualStats (analyzeStrategy lc (config (worker_entry draws_aB form_pos0 1 0 [0, 1, 2])) draws_aB)
        = [\<lparr> year = utf16 ''a024'', profit = 606, winCount = 1, totalCount = 1 \<rparr>,
           \<lparr> year = utf16 ''B023'', profit = - 384, winCount = 0, totalCount = 1 \<rparr>]
    \<and> annualStats (worker_entry draws_aB form_pos0 1 0 [0, 1, 2])
        = [\<lparr> year = utf16 ''B023'', profit = - 384, winCount = 0, totalCount = 1 \<rparr>,
           \<lparr> year = utf16 ''a024'', profit = 606, winCount = 1, totalCount = 1 \<rparr>]
    \<and> analyzeStrategy lc (config (worker_entry draws_aB form_pos0 1 0 [0, 1, 2])) draws_aB
        \<noteq> worker_entry draws_aB form_pos0 1 0 [0, 1, 2]
    \<and> (analyzeStrategy lc (config (worker_entry draws_aB form_pos0 1 0 [0, 1, 2])) draws_aB)
          \<lparr> annualStats := [] \<rparr>
        = (worker_entry draws_aB form_pos0 1 0 [0, 1, 2]) \<lparr> annualStats := [] \<rparr>"
proof -
  let ?s = "worker_entry draws_aB form_pos0 1 0 [0, 1, 2]"
  let ?a = "analyzeStrategy lc (config ?s) draws_aB"
  have le: "lc (utf16 ''a024'') (utf16 ''B023'') \<le> 0" using assms by simp
  have a: "annualStats ?a
        = [\<lparr> year = utf16 ''a024'', profit = 606, winCount = 1, totalCount = 1 \<rparr>,
           \<lparr> year = utf16 ''B023'', profit = - 384, winCount = 0, totalCount = 1 \<rparr>]"
    unfolding as_annual_field draws_aB_annualMap
    by (simp add: as_annualStats_def sort_by_def le)
  have ne: "?a \<noteq> ?s"
  proof
    assume "?a = ?s"
    then have "annualStats ?a = annualStats ?s" by simp
    then show False unfolding a draws_aB_worker using years_aB by simp
  qed
  have t3: "length [0, 1, 2 :: nat] = 3" by simp
  note r = entry_agree_rest(1)[OF form_pos0_wf draws_aB_wf t3, of lc 1 0]
  have rest: "?a \<lparr> annualStats := [] \<rparr> = ?s \<lparr> annualStats := [] \<rparr>"
    by (subst r) simp
  show ?thesis
    by (intro conjI draws_aB_wf draws_aB_entry a draws_aB_worker ne rest)
qed

theorem C3_annualStats_divergence_witness:
  "caseless_compare (utf16 ''a024'') (utf16 ''B023'') < 0
   \<and> analyzeStrategy caseless_compare
        (config (worker_entry draws_aB form_pos0 1 0 [0, 1, 2])) draws_aB
       \<noteq> worker_entry draws_aB form_pos0 1 0 [0, 1, 2]"
proof -
  have h: "caseless_compare (utf16 ''a024'') (utf16 ''B023'') < 0" by code_simp
  note th = C3_annualStats_divergence[of caseless_compare, OF h]
  show ?thesis
    by (intro conjI h th[THEN conjunct2, THEN conjunct2, THEN conjunct2, THEN conjunct2, THEN conjunct1])
qed


section \<open>The strategy space\<close>

subsection \<open>Id strings\<close>

lemma digit_char_inj: "a < 10 \<Longrightarrow> b < 10 \<Longrightarrow> digit_char a = digit_char b \<Longrightarrow> a = b"
  by (simp add: digit_char_def char_of_eq_iff take_bit_eq_mod)

lemma num_toString_digit: "n < 10 \<Longrightarrow> num_toString n = [digit_char n]"
  by (subst num_toString.simps) simp

lemma join_nums_digits: "list_all (\<lambda>p. p < 10) xs \<Longrightarrow> join_nums xs = map digit_char xs"
  by (induction xs) (simp_all add: join_nums_def num_toString_digit)

lemma map_digit_inj:
  "list_all (\<lambda>p. p < 10) xs \<Longrightarrow> list_all (\<lambda>p. p < 10) ys \<Longrightarrow>
   map digit_char xs = map digit_char ys \<Longrightarrow> xs = ys"
proof (induction xs arbitrary: ys)
  case Nil
  then show ?case by simp
next
  case (Cons x xs)
  then obtain y ys' where ys: "ys = y # ys'" by (cases ys) auto
  with Cons show ?case by (auto dest: digit_char_inj)
qed

lemma join_nums_inj:
  "list_all (\<lambda>p. p < 10) xs \<Longrightarrow> list_all (\<lambda>p. p < 10) ys \<Longrightarrow>
   join_nums xs = join_nums ys \<Longrightarrow> xs = ys"
  by (simp add: join_nums_digits map_digit_inj)

lemma length_join_nums: "list_all (\<lambda>p. p < 10) xs \<Longrightarrow> length (join_nums xs) = length xs"
  by (simp add: join_nums_digits)

lemma join_ops_map: "join_ops ops = map (\<lambda>c. hd (op_str c)) ops"
proof (induction ops)
  case Nil
  then show ?case by (simp add: join_ops_def)
next
  case (Cons c ops)
  then show ?case by (cases c) (simp_all add: join_ops_def)
qed

lemma length_join_ops: "length (join_ops ops) = length ops"
  by (simp add: join_ops_map)

lemma op_char_inj: "hd (op_str a) = hd (op_str b) \<Longrightarrow> a = b"
  by (cases a; cases b) simp_all

lemma join_ops_inj: "join_ops xs = join_ops ys \<Longrightarrow> xs = ys"
proof (induction xs arbitrary: ys)
  case Nil
  then show ?case by (simp add: join_ops_map)
next
  case (Cons x xs)
  then obtain y ys' where ys: "ys = y # ys'" by (cases ys) (auto simp: join_ops_map)
  with Cons.prems have "hd (op_str x) = hd (op_str y)" "join_ops xs = join_ops ys'"
    by (simp_all add: join_ops_map)
  with Cons.IH ys show ?case by (auto dest: op_char_inj)
qed

lemma type_str_inj: "hd (type_str a) = hd (type_str b) \<Longrightarrow> a = b"
  by (cases a; cases b) simp_all

lemma type_str_length: "length (type_str a) = 5"
  by (cases a) simp_all

lemma type_str_ne: "type_str a \<noteq> []"
  by (cases a) simp_all

text \<open>The six coordinates of an id, under the size conditions of the enumeration.\<close>

lemma mk_id_inject:
  assumes eq: "mk_id ty inputs ops t off l = mk_id ty' inputs' ops' t' off' l'"
    and i: "length inputs = degree ty" "length inputs' = degree ty'"
           "list_all (\<lambda>p. p < 10) inputs" "list_all (\<lambda>p. p < 10) inputs'"
    and o: "length ops = degree ty - 1" "length ops' = degree ty' - 1"
    and t: "length t = 3" "length t' = 3" "list_all (\<lambda>p. p < 10) t" "list_all (\<lambda>p. p < 10) t'"
    and k: "off < 10" "off' < 10"
  shows "ty = ty' \<and> inputs = inputs' \<and> ops = ops' \<and> t = t' \<and> off = off'
         \<and> num_toString l = num_toString l'"
proof -
  have "hd (mk_id ty inputs ops t off l) = hd (type_str ty)"
       "hd (mk_id ty' inputs' ops' t' off' l') = hd (type_str ty')"
    using type_str_ne by (simp_all add: mk_id_def)
  with eq have ty: "ty = ty'" by (auto dest: type_str_inj)
  let ?r1 = "join_nums inputs @ ''-'' @ join_ops ops @ ''-T'' @ join_nums t
       @ ''-K'' @ num_toString off @ ''-L'' @ num_toString l"
  let ?r1' = "join_nums inputs' @ ''-'' @ join_ops ops' @ ''-T'' @ join_nums t'
       @ ''-K'' @ num_toString off' @ ''-L'' @ num_toString l'"
  from eq ty have 1: "?r1 = ?r1'" by (simp add: mk_id_def)
  have l1: "length (join_nums inputs) = length (join_nums inputs')"
    using i ty by (simp add: length_join_nums)
  from 1 l1 have a: "join_nums inputs = join_nums inputs'"
    and 2: "join_ops ops @ ''-T'' @ join_nums t @ ''-K'' @ num_toString off @ ''-L'' @ num_toString l
          = join_ops ops' @ ''-T'' @ join_nums t' @ ''-K'' @ num_toString off' @ ''-L'' @ num_toString l'"
    by simp_all
  have l2: "length (join_ops ops) = length (join_ops ops')"
    using o ty by (simp add: length_join_ops)
  from 2 l2 have b: "join_ops ops = join_ops ops'"
    and 3: "join_nums t @ ''-K'' @ num_toString off @ ''-L'' @ num_toString l
          = join_nums t' @ ''-K'' @ num_toString off' @ ''-L'' @ num_toString l'"
    by simp_all
  have l3: "length (join_nums t) = length (join_nums t')"
    using t by (simp add: length_join_nums)
  from 3 l3 have c: "join_nums t = join_nums t'"
    and 4: "num_toString off @ ''-L'' @ num_toString l = num_toString off' @ ''-L'' @ num_toString l'"
    by simp_all
  from 4 k have d: "digit_char off = digit_char off'" and e: "num_toString l = num_toString l'"
    by (simp_all add: num_toString_digit)
  have "inputs = inputs'" using i(3,4) a by (rule join_nums_inj)
  moreover from b have "ops = ops'" by (rule join_ops_inj)
  moreover have "t = t'" using t(3,4) c by (rule join_nums_inj)
  moreover have "off = off'" using k d by (rule digit_char_inj)
  ultimately show ?thesis using ty e by simp
qed


subsection \<open>The enumeration\<close>

lemma getOpPermutations_Suc: "getOpPermutations (Suc n) = Some (op_seqs (Suc n))"
proof (induction n)
  case 0
  show ?case by (simp add: ops_all_def)
next
  case (Suc n)
  show ?case by (subst getOpPermutations.simps) (simp only: Suc op_seqs.simps option.case)
qed

lemma getOpPermutations_pos:
  assumes "0 < n"
  shows "getOpPermutations n = Some (op_seqs n)"
proof -
  from assms obtain m where "n = Suc m" by (cases n) auto
  then show ?thesis by (simp only: getOpPermutations_Suc)
qed

lemma getOpPermutations_numeral:
  "getOpPermutations 1 = Some (op_seqs 1)" "getOpPermutations 2 = Some (op_seqs 2)"
  "getOpPermutations 3 = Some (op_seqs 3)" "getOpPermutations 4 = Some (op_seqs 4)"
  by (rule getOpPermutations_pos, simp)+

lemma length_op_seqs: "length (op_seqs n) = 3 ^ n"
  by (induction n) (simp_all add: ops_all_def)

lemma op_seqs_length: "s \<in> set (op_seqs n) \<Longrightarrow> length s = n"
  by (induction n arbitrary: s) (auto simp: ops_all_def)

lemma distinct_op_seqs: "distinct (op_seqs n)"
  by (induction n) (auto simp: ops_all_def distinct_map)

lemma combinations_eval:
  "getCombinations positions 2
     = [[0, 1], [0, 2], [0, 3], [0, 4], [1, 2], [1, 3], [1, 4], [2, 3], [2, 4], [3, 4]]"
  "getCombinations positions 3
     = [[0, 1, 2], [0, 1, 3], [0, 1, 4], [0, 2, 3], [0, 2, 4], [0, 3, 4],
        [1, 2, 3], [1, 2, 4], [1, 3, 4], [2, 3, 4]]"
  "getCombinations positions 4
     = [[0, 1, 2, 3], [0, 1, 2, 4], [0, 1, 3, 4], [0, 2, 3, 4], [1, 2, 3, 4]]"
  by code_simp+

lemma formulas_eq:
  "formulas = Some
     (map (\<lambda>idx. \<lparr> f_type = ONE_POS, f_inputs = [idx], f_ops = [],
                    f_name = pos_name [idx] 0 \<rparr>) positions
      @ formulas_of TWO_POS name2 (getCombinations positions 2) (op_seqs 1)
      @ formulas_of THREE_POS name3 (getCombinations positions 3) (op_seqs 2)
      @ formulas_of FOUR_POS name4 (getCombinations positions 4) (op_seqs 3)
      @ map (\<lambda>ops. \<lparr> f_type = FIVE_POS, f_inputs = [0, 1, 2, 3, 4], f_ops = ops,
                      f_name = name5 ops \<rparr>) (op_seqs 4))"
  by (simp add: formulas_def getOpPermutations_numeral)

lemma formulas_the:
  assumes "formulas = Some fs"
  shows "fs = map (\<lambda>idx. \<lparr> f_type = ONE_POS, f_inputs = [idx], f_ops = [],
                    f_name = pos_name [idx] 0 \<rparr>) positions
      @ formulas_of TWO_POS name2 (getCombinations positions 2) (op_seqs 1)
      @ formulas_of THREE_POS name3 (getCombinations positions 3) (op_seqs 2)
      @ formulas_of FOUR_POS name4 (getCombinations positions 4) (op_seqs 3)
      @ map (\<lambda>ops. \<lparr> f_type = FIVE_POS, f_inputs = [0, 1, 2, 3, 4], f_ops = ops,
                      f_name = name5 ops \<rparr>) (op_seqs 4)"
proof -
  note e = trans[OF assms[symmetric] formulas_eq]
  then show ?thesis by (simp only: option.inject)
qed

lemma fkey_formulas_of:
  "map fkey (formulas_of ty nm IG OK) = map (\<lambda>(i, ops). (ty, i, ops)) (List.product IG OK)"
  by (simp add: formulas_of_def product_concat_map map_concat comp_def fkey_def)

lemma length_formulas_of: "length (formulas_of ty nm IG OK) = length IG * length OK"
  using arg_cong[OF fkey_formulas_of, of length ty nm IG OK] by simp

lemma distinct_fkey_formulas_of:
  "distinct IG \<Longrightarrow> distinct OK \<Longrightarrow> distinct (map fkey (formulas_of ty nm IG OK))"
  by (simp add: fkey_formulas_of distinct_map distinct_product inj_on_def)

lemma fkey_formulas_of_type:
  "k \<in> set (map fkey (formulas_of ty nm IG OK)) \<Longrightarrow> fst k = ty"
  by (auto simp: fkey_formulas_of)

lemma formulas_length:
  assumes "formulas = Some fs"
  shows "length fs = 341"
proof -
  have c: "length (getCombinations positions 2) = 10" "length (getCombinations positions 3) = 10"
    "length (getCombinations positions 4) = 5" "length positions = 5"
    by (simp_all only: combinations_eval) (simp_all add: positions_def)
  have "length fs = 5 + 10 * 3 ^ 1 + 10 * 3 ^ 2 + 5 * 3 ^ 3 + 3 ^ 4"
    unfolding formulas_the[OF assms]
    by (simp only: length_append length_map length_formulas_of length_op_seqs c)
  then show ?thesis by simp
qed

lemma formulas_distinct:
  assumes "formulas = Some fs"
  shows "distinct (map fkey fs)"
proof -
  let ?F1 = "map (\<lambda>idx. \<lparr> f_type = ONE_POS, f_inputs = [idx], f_ops = [],
                    f_name = pos_name [idx] 0 \<rparr>) positions"
  let ?F2 = "formulas_of TWO_POS name2 (getCombinations positions 2) (op_seqs 1)"
  let ?F3 = "formulas_of THREE_POS name3 (getCombinations positions 3) (op_seqs 2)"
  let ?F4 = "formulas_of FOUR_POS name4 (getCombinations positions 4) (op_seqs 3)"
  let ?F5 = "map (\<lambda>ops. \<lparr> f_type = FIVE_POS, f_inputs = [0, 1, 2, 3, 4], f_ops = ops,
                      f_name = name5 ops \<rparr>) (op_seqs 4)"
  have fs: "fs = ?F1 @ ?F2 @ ?F3 @ ?F4 @ ?F5"
    by (rule formulas_the[OF assms])
  have d1: "distinct (map fkey ?F1)"
    by (simp add: positions_def fkey_def)
  have d2: "distinct (map fkey ?F2)" "distinct (map fkey ?F3)" "distinct (map fkey ?F4)"
    by (intro distinct_fkey_formulas_of distinct_op_seqs; simp add: combinations_eval)+
  have d5: "distinct (map fkey ?F5)"
    using distinct_op_seqs[of 4] by (simp add: distinct_map comp_def fkey_def inj_on_def)
  have t1: "fst k = ONE_POS" if "k \<in> set (map fkey ?F1)" for k
    using that by (auto simp: fkey_def)
  have t5: "fst k = FIVE_POS" if "k \<in> set (map fkey ?F5)" for k
    using that by (auto simp: fkey_def)
  note t2 = fkey_formulas_of_type[of _ TWO_POS name2 "getCombinations positions 2" "op_seqs 1"]
  note t3 = fkey_formulas_of_type[of _ THREE_POS name3 "getCombinations positions 3" "op_seqs 2"]
  note t4 = fkey_formulas_of_type[of _ FOUR_POS name4 "getCombinations positions 4" "op_seqs 3"]
  have disj: "set (map fkey ?F1) \<inter> set (map fkey ?F2) = {}"
    "set (map fkey ?F1) \<inter> set (map fkey ?F3) = {}"
    "set (map fkey ?F1) \<inter> set (map fkey ?F4) = {}"
    "set (map fkey ?F1) \<inter> set (map fkey ?F5) = {}"
    "set (map fkey ?F2) \<inter> set (map fkey ?F3) = {}"
    "set (map fkey ?F2) \<inter> set (map fkey ?F4) = {}"
    "set (map fkey ?F2) \<inter> set (map fkey ?F5) = {}"
    "set (map fkey ?F3) \<inter> set (map fkey ?F4) = {}"
    "set (map fkey ?F3) \<inter> set (map fkey ?F5) = {}"
    "set (map fkey ?F4) \<inter> set (map fkey ?F5) = {}"
    using t1 t2 t3 t4 t5 by (fastforce simp del: set_map)+
  have "distinct (map fkey ?F1 @ map fkey ?F2 @ map fkey ?F3 @ map fkey ?F4 @ map fkey ?F5)"
    using d1 d2 d5 disj by (simp only: distinct_append set_append Int_Un_distrib Un_empty)
  then show ?thesis by (simp only: fs map_append)
qed


subsection \<open>The configurations and their ids\<close>

lemma variations_formulas:
  "variations_of ty nm IG OK
     = concat (map (\<lambda>f. addVariations (f_type f) (f_inputs f) (f_ops f) (f_name f))
                   (formulas_of ty nm IG OK))"
  by (induction IG) (simp_all add: variations_of_def formulas_of_def comp_def)

lemma generateStrategies_formulas:
  assumes "formulas = Some fs"
  shows "generateStrategies
     = Some (concat (map (\<lambda>f. addVariations (f_type f) (f_inputs f) (f_ops f) (f_name f)) fs))"
  unfolding formulas_the[OF assms]
  by (simp add: generateStrategies_def getOpPermutations_numeral variations_formulas comp_def)

lemma addVariations_ids:
  "map id_str (addVariations (f_type f) (f_inputs f) (f_ops f) (f_name f))
     = map (\<lambda>(t, off, lb). combo_id f t off lb)
           (List.product targetGroups (List.product OFFSETS LOOKBACKS))"
  by (simp add: addVariations_def product_concat_map map_concat comp_def combo_id_def)

lemma generateStrategies_ids:
  assumes "formulas = Some fs" and "generateStrategies = Some cs"
  shows "map id_str cs
     = map (\<lambda>(f, t, off, lb). combo_id f t off lb)
           (List.product fs (List.product targetGroups (List.product OFFSETS LOOKBACKS)))"
proof -
  have "cs = concat (map (\<lambda>f. addVariations (f_type f) (f_inputs f) (f_ops f) (f_name f)) fs)"
    using assms(2) unfolding generateStrategies_formulas[OF assms(1)] by simp
  then show ?thesis
    by (simp add: map_concat comp_def addVariations_ids product_concat_map)
qed

lemma runWorker_list:
  assumes "formulas = Some fs" and "runWorker draws = Some rs"
  shows "rs = concat (map (\<lambda>form. concat (map (\<lambda>lb.
         concat (map (\<lambda>off. map (\<lambda>targets. worker_entry draws form lb off targets)
                     targetGroups) OFFSETS)) LOOKBACKS)) fs)"
  using assms(2) unfolding runWorker_def assms(1)
  by (simp add: worker_entry_def Let_def split_beta)

lemma worker_entry_id:
  "id_str (config (worker_entry draws f lb off t)) = combo_id f t off lb"
  by (simp add: wk_config combo_id_def)

lemma runWorker_ids:
  assumes "formulas = Some fs" and "runWorker draws = Some rs"
  shows "map (\<lambda>s. id_str (config s)) rs
     = map (\<lambda>(f, lb, off, t). combo_id f t off lb)
           (List.product fs (List.product LOOKBACKS (List.product OFFSETS targetGroups)))"
  unfolding runWorker_list[OF assms]
  by (simp add: map_concat comp_def worker_entry_id product_concat_map)

lemma combo_id_inject:
  assumes fs: "formulas = Some fs"
    and m: "f \<in> set fs" "f' \<in> set fs" "t \<in> set targetGroups" "t' \<in> set targetGroups"
      "off \<in> set OFFSETS" "off' \<in> set OFFSETS" "lb \<in> set LOOKBACKS" "lb' \<in> set LOOKBACKS"
    and eq: "combo_id f t off lb = combo_id f' t' off' lb'"
  shows "f = f' \<and> t = t' \<and> off = off' \<and> lb = lb'"
proof -
  have tg: "list_all (\<lambda>t. length t = 3 \<and> list_all (\<lambda>p. p < 10) t) targetGroups"
    unfolding targetGroups_def combinations_eval by simp
  have lt: "p < 5 \<Longrightarrow> p < 10" for p :: nat by simp
  have wf: "length (f_inputs g) = degree (f_type g) \<and> length (f_ops g) = degree (f_type g) - 1
      \<and> list_all (\<lambda>p. p < 10) (f_inputs g)" if "g \<in> set fs" for g
    using formulas_wf[OF fs that] by (auto simp: wf_form_def list_all_iff)
  have T: "length t = 3" "length t' = 3" "list_all (\<lambda>p. p < 10) t" "list_all (\<lambda>p. p < 10) t'"
    using tg m(3,4) by (auto simp: list_all_iff)
  have K: "off < 10" "off' < 10" using m(5,6) by (auto simp: OFFSETS_def)
  from eq have "mk_id (f_type f) (f_inputs f) (f_ops f) t off lb
      = mk_id (f_type f') (f_inputs f') (f_ops f') t' off' lb'"
    by (simp add: combo_id_def)
  from mk_id_inject[OF this] wf[OF m(1)] wf[OF m(2)] T K
  have r: "f_type f = f_type f'" "f_inputs f = f_inputs f'" "f_ops f = f_ops f'"
      "t = t'" "off = off'" "num_toString lb = num_toString lb'"
    by simp_all
  have "inj_on fkey (set fs)"
    using formulas_distinct[OF fs] by (simp add: distinct_map)
  moreover have "fkey f = fkey f'" using r by (simp add: fkey_def)
  ultimately have "f = f'" using m(1,2) by (auto dest: inj_onD)
  have "distinct (map num_toString LOOKBACKS)" by code_simp
  then have "inj_on num_toString (set LOOKBACKS)" by (simp add: distinct_map)
  with r(6) m(7,8) have "lb = lb'" by (auto dest: inj_onD)
  with \<open>f = f'\<close> r show ?thesis by simp
qed

lemma enum_distinct:
  "distinct targetGroups" "distinct OFFSETS" "distinct LOOKBACKS"
  "length targetGroups = 10" "length OFFSETS = 5" "length LOOKBACKS = 12"
  unfolding targetGroups_def combinations_eval by (simp_all add: OFFSETS_def LOOKBACKS_def)

lemma formulas_distinct_list: "formulas = Some fs \<Longrightarrow> distinct fs"
  using formulas_distinct by (auto simp: distinct_map)

text \<open>
  C9. The enumeration yields 341 formula definitions, which is the sum over the degrees
  \<open>d = 1..5\<close> of \<open>C(5,d) * 3^(d-1)\<close>; with the 10 target groups, 5 offsets and 12 lookbacks
  this gives 204600 configurations in one run, in \<open>generateStrategies\<close> and in the
  worker's result list alike, and no two of them have the same id.
\<close>

theorem C9_enumeration:
  "\<exists>fs cs. formulas = Some fs \<and> length fs = 341
     \<and> (\<Sum>d = 1..5. (5 choose d) * 3 ^ (d - 1)) = (341::nat)
     \<and> length targetGroups = 10 \<and> length OFFSETS = 5 \<and> length LOOKBACKS = 12
     \<and> generateStrategies = Some cs \<and> length cs = 204600 \<and> distinct (map id_str cs)
     \<and> (\<forall>draws. \<exists>rs. runWorker draws = Some rs \<and> length rs = 204600
           \<and> distinct (map (\<lambda>s. id_str (config s)) rs))"
proof -
  obtain fs where fs: "formulas = Some fs" using formulas_Some by blast
  define cs where "cs = concat (map (\<lambda>f. addVariations (f_type f) (f_inputs f) (f_ops f) (f_name f)) fs)"
  have gs: "generateStrategies = Some cs"
    unfolding cs_def by (rule generateStrategies_formulas[OF fs])
  note len = formulas_length[OF fs] enum_distinct(4-6)
  note dfs = formulas_distinct_list[OF fs]
  have cnt: "(\<Sum>d = 1..5. (5 choose d) * 3 ^ (d - 1)) = (341::nat)"
    by (simp add: eval_nat_numeral binomial_Suc_Suc)
  have lcs: "length (map id_str cs) = 204600"
    unfolding generateStrategies_ids[OF fs gs] by (simp add: len)
  have dcs: "distinct (map id_str cs)"
    unfolding generateStrategies_ids[OF fs gs]
    by (subst distinct_map, intro conjI distinct_product dfs enum_distinct(1-3) inj_onI)
       (auto dest: combo_id_inject[OF fs])
  have wk: "\<exists>rs. runWorker draws = Some rs \<and> length rs = 204600
           \<and> distinct (map (\<lambda>s. id_str (config s)) rs)" for draws
  proof -
    obtain rs where rs: "runWorker draws = Some rs" using runWorker_Some by blast
    have "length (map (\<lambda>s. id_str (config s)) rs) = 204600"
      unfolding runWorker_ids[OF fs rs] by (simp add: len)
    moreover have "distinct (map (\<lambda>s. id_str (config s)) rs)"
      unfolding runWorker_ids[OF fs rs]
      by (subst distinct_map, intro conjI distinct_product dfs enum_distinct(1-3) inj_onI)
         (auto dest: combo_id_inject[OF fs])
    ultimately show ?thesis using rs by simp
  qed
  from fs len cnt gs lcs dcs wk show ?thesis by auto
qed

end
